theory Spec2Isabelle
  imports Complex_Main
begin

section \<open>C integers\<close>

text \<open>
  The program's \<open>int\<close> is a 32-bit two's complement integer. Its values are modelled
  as \<open>int\<close>; \<open>int32\<close> wraps the exact result of an arithmetic operation into the
  range of the type, \<open>c_div\<close> is C's division (the quotient truncated towards zero)
  and \<open>c_rem\<close> C's remainder \<open>%\<close>, which satisfies \<open>(a/b)*b + a%b == a\<close>.
\<close>

definition int32 :: "int \<Rightarrow> int" where
  "int32 v = (v + 2 ^ 31) mod 2 ^ 32 - 2 ^ 31"

definition c_div :: "int \<Rightarrow> int \<Rightarrow> int" where
  "c_div a b = sgn a * sgn b * (\<bar>a\<bar> div \<bar>b\<bar>)"

definition c_rem :: "int \<Rightarrow> int \<Rightarrow> int" where
  "c_rem a b = a - b * c_div a b"

section \<open>Setup_Grid: the decomposition of one axis\<close>

text \<open>
  \<open>offset[d] = gridsize[d] * proc_coord[d] / P_grid[d]\<close>,
  \<open>upper_offset[d] = gridsize[d] * (proc_coord[d] + 1) / P_grid[d]\<close> and
  \<open>dim[d] = (upper_offset[d] - offset[d]) + 2\<close>, in \<open>int\<close> arithmetic.
\<close>

definition offset_of :: "int \<Rightarrow> int \<Rightarrow> int \<Rightarrow> int" where
  "offset_of gridsize proc_coord P_grid = c_div (int32 (gridsize * proc_coord)) P_grid"

definition upper_offset_of :: "int \<Rightarrow> int \<Rightarrow> int \<Rightarrow> int" where
  "upper_offset_of gridsize proc_coord P_grid =
     c_div (int32 (gridsize * int32 (proc_coord + 1))) P_grid"

definition dim_of :: "int \<Rightarrow> int \<Rightarrow> int \<Rightarrow> int" where
  "dim_of gridsize proc_coord P_grid =
     int32 (int32 (upper_offset_of gridsize proc_coord P_grid
                     - offset_of gridsize proc_coord P_grid) + 2)"

text \<open>The global cells (numbered from 0 along one axis) of a process's interior.\<close>

definition interior_interval :: "int \<Rightarrow> int \<Rightarrow> int \<Rightarrow> int set" where
  "interior_interval gridsize proc_coord P_grid =
     {offset_of gridsize proc_coord P_grid ..< upper_offset_of gridsize proc_coord P_grid}"

section \<open>The values of type double\<close>

text \<open>
  Without \<open>CG\<close> the program adds, subtracts, multiplies and compares the numbers of
  its input and never divides: all its values are finite numbers, and they are modelled
  as real numbers, with exact arithmetic (no rounding, no overflow).

  With \<open>CG\<close> the program divides, and a division by zero does not stop it: by IEEE 754
  the quotient is an infinity or NaN, and the program goes on with it. The values of the
  arrays and variables of type \<open>double\<close> are then modelled by the type \<open>double\<close> below: a
  finite number (a real, with exact arithmetic), one of the two infinities, or NaN. The
  operations are those of IEEE 754 on these values: NaN where an operand is NaN, for
  \<open>inf - inf\<close>, \<open>0 * inf\<close>, \<open>0 / 0\<close> and \<open>inf / inf\<close>; an infinity for a non-zero number
  divided by zero; every comparison with NaN false. The sign of a zero is not modelled:
  it matters only in a division by a negative zero, and the divisors of the program are
  sums accumulated from \<open>+0.0\<close>, which are never the negative zero.
\<close>

datatype double = Fin real | PInf | MInf | NaN

instantiation double :: "{zero, one, plus, uminus, minus, times, inverse, ord}"
begin

definition zero_double :: double where
  "zero_double = Fin 0"

definition one_double :: double where
  "one_double = Fin 1"

fun uminus_double :: "double \<Rightarrow> double" where
  "uminus_double (Fin a) = Fin (- a)"
| "uminus_double PInf = MInf"
| "uminus_double MInf = PInf"
| "uminus_double NaN = NaN"

fun plus_double :: "double \<Rightarrow> double \<Rightarrow> double" where
  "plus_double (Fin a) (Fin b) = Fin (a + b)"
| "plus_double NaN b = NaN"
| "plus_double a NaN = NaN"
| "plus_double PInf MInf = NaN"
| "plus_double MInf PInf = NaN"
| "plus_double PInf b = PInf"
| "plus_double a PInf = PInf"
| "plus_double MInf b = MInf"
| "plus_double a MInf = MInf"

definition minus_double :: "double \<Rightarrow> double \<Rightarrow> double" where
  "minus_double a b = a + (- b)"

fun times_double :: "double \<Rightarrow> double \<Rightarrow> double" where
  "times_double (Fin a) (Fin b) = Fin (a * b)"
| "times_double NaN b = NaN"
| "times_double a NaN = NaN"
| "times_double (Fin a) PInf = (if a = 0 then NaN else if 0 < a then PInf else MInf)"
| "times_double (Fin a) MInf = (if a = 0 then NaN else if 0 < a then MInf else PInf)"
| "times_double PInf (Fin b) = (if b = 0 then NaN else if 0 < b then PInf else MInf)"
| "times_double MInf (Fin b) = (if b = 0 then NaN else if 0 < b then MInf else PInf)"
| "times_double PInf PInf = PInf"
| "times_double PInf MInf = MInf"
| "times_double MInf PInf = MInf"
| "times_double MInf MInf = PInf"

fun divide_double :: "double \<Rightarrow> double \<Rightarrow> double" where
  "divide_double (Fin a) (Fin b) =
     (if b = 0 then (if a = 0 then NaN else if 0 < a then PInf else MInf) else Fin (a / b))"
| "divide_double NaN b = NaN"
| "divide_double a NaN = NaN"
| "divide_double (Fin a) PInf = Fin 0"
| "divide_double (Fin a) MInf = Fin 0"
| "divide_double PInf (Fin b) = (if 0 \<le> b then PInf else MInf)"
| "divide_double MInf (Fin b) = (if 0 \<le> b then MInf else PInf)"
| "divide_double PInf PInf = NaN"
| "divide_double PInf MInf = NaN"
| "divide_double MInf PInf = NaN"
| "divide_double MInf MInf = NaN"

fun inverse_double :: "double \<Rightarrow> double" where
  "inverse_double (Fin a) = (if a = 0 then PInf else Fin (inverse a))"
| "inverse_double PInf = Fin 0"
| "inverse_double MInf = Fin 0"
| "inverse_double NaN = NaN"

fun less_double :: "double \<Rightarrow> double \<Rightarrow> bool" where
  "less_double (Fin a) (Fin b) \<longleftrightarrow> a < b"
| "less_double (Fin a) PInf \<longleftrightarrow> True"
| "less_double MInf (Fin b) \<longleftrightarrow> True"
| "less_double MInf PInf \<longleftrightarrow> True"
| "less_double a b \<longleftrightarrow> False"

fun less_eq_double :: "double \<Rightarrow> double \<Rightarrow> bool" where
  "less_eq_double (Fin a) (Fin b) \<longleftrightarrow> a \<le> b"
| "less_eq_double (Fin a) PInf \<longleftrightarrow> True"
| "less_eq_double MInf (Fin b) \<longleftrightarrow> True"
| "less_eq_double MInf PInf \<longleftrightarrow> True"
| "less_eq_double MInf MInf \<longleftrightarrow> True"
| "less_eq_double PInf PInf \<longleftrightarrow> True"
| "less_eq_double a b \<longleftrightarrow> False"

instance ..

end

text \<open>
  Addition is associative and commutative on these values, so that the result of a
  reduction with \<open>MPI_SUM\<close> does not depend on the order in which it is taken.
\<close>

instance double :: comm_monoid_add
proof
  fix x y z :: double
  show "0 + x = x"
    by (cases x) (simp_all add: zero_double_def)
  show "x + y = y + x"
    by (cases x; cases y) simp_all
  show "x + y + z = x + (y + z)"
    by (cases x; cases y; cases z) simp_all
qed

instance double :: numeral ..

text \<open>C's \<open>isfinite\<close>.\<close>

fun is_finite :: "double \<Rightarrow> bool" where
  "is_finite (Fin a) \<longleftrightarrow> True"
| "is_finite a \<longleftrightarrow> False"

section \<open>The local grid of a process\<close>

text \<open>
  The program keeps each two-dimensional array in one block: \<open>phi[x]\<close> points to
  \<open>phi[0] + x * dim[Y_DIR]\<close>, so \<open>phi[x][y]\<close> is the element \<open>x * dim[Y_DIR] + y\<close> of the
  block. An array is modelled as its block, a function from element numbers to values.
  The type \<open>'a\<close> of the values is \<open>real\<close> without \<open>CG\<close> and \<open>double\<close> with \<open>CG\<close>.
\<close>

datatype dir = X_DIR | Y_DIR

type_synonym 'a buffer = "int \<Rightarrow> 'a"

record 'a tile =
  dim_x :: int
  dim_y :: int
  offset_x :: int
  offset_y :: int
  phi :: "'a buffer"
  source :: "int \<Rightarrow> int"
  pCG :: "'a buffer"
  rCG :: "'a buffer"
  vCG :: "'a buffer"

definition idx :: "'a tile \<Rightarrow> int \<Rightarrow> int \<Rightarrow> int" where
  "idx t x y = x * dim_y t + y"

text \<open>
  The cells visited by
  \<open>for (x = 1; x < dim[X_DIR] - 1; x++) for (y = 1; y < dim[Y_DIR] - 1; y++)\<close>,
  in the order of the visit.
\<close>

definition interior_cells :: "'a tile \<Rightarrow> (int \<times> int) list" where
  "interior_cells t = concat (map (\<lambda>x. map (\<lambda>y. (x, y)) [1..dim_y t - 2]) [1..dim_x t - 2])"

section \<open>Setup_Grid\<close>

text \<open>The conversion of a \<open>double\<close> to \<open>int\<close> drops the fraction.\<close>

definition c_trunc :: "real \<Rightarrow> int" where
  "c_trunc r = (if 0 \<le> r then \<lfloor>r\<rfloor> else \<lceil>r\<rceil>)"

text \<open>
  One record \<open>source: x y value\<close> of the input, as every process handles it after the
  broadcast.
\<close>

definition put_source :: "int \<Rightarrow> int \<Rightarrow> real \<times> real \<times> 'a \<Rightarrow> 'a tile \<Rightarrow> 'a tile" where
  "put_source gridsize_x gridsize_y = (\<lambda>(source_x, source_y, source_val) t.
     let x = c_trunc (source_x * real_of_int gridsize_x);
         y = c_trunc (source_y * real_of_int gridsize_y);
         x = x + 1;
         y = y + 1;
         x = x - offset_x t;
         y = y - offset_y t
     in if x > 0 \<and> x < dim_x t - 1 \<and> y > 0 \<and> y < dim_y t - 1
        then t\<lparr>phi := (phi t)(idx t x y := source_val),
               source := (source t)(idx t x y := 1)\<rparr>
        else t)"

text \<open>
  The local grid of the process at \<open>proc_coord\<close>: offsets and dimensions, \<open>phi\<close> and
  \<open>source\<close> set to 0, then the sources put in the field. The arrays of the conjugate
  gradient method are allocated later, by \<open>InitCG\<close>, and never cleared: \<open>heap\<close> is
  the content of the memory they get.
\<close>

definition Setup_Grid ::
  "int \<times> int \<Rightarrow> int \<times> int \<Rightarrow> (real \<times> real \<times> 'a) list \<Rightarrow> 'a buffer \<Rightarrow> int \<times> int \<Rightarrow>
   'a::zero tile" where
  "Setup_Grid gridsize P_grid sources heap proc_coord =
     fold (put_source (fst gridsize) (snd gridsize)) sources
       \<lparr>dim_x = dim_of (fst gridsize) (fst proc_coord) (fst P_grid),
        dim_y = dim_of (snd gridsize) (snd proc_coord) (snd P_grid),
        offset_x = offset_of (fst gridsize) (fst proc_coord) (fst P_grid),
        offset_y = offset_of (snd gridsize) (snd proc_coord) (snd P_grid),
        phi = (\<lambda>a. 0), source = (\<lambda>a. 0),
        pCG = heap, rCG = heap, vCG = heap\<rparr>"

section \<open>The processes\<close>

text \<open>
  All processes run the same program in lockstep: a collective operation is a step of
  all of them together. A process is named by its coordinates in the process grid. The
  variables that a broadcast or a reduction makes equal on all processes
  (\<open>P_grid\<close>, \<open>global_residue\<close>) are kept once.
\<close>

record 'a world =
  P_grid_x :: int
  P_grid_y :: int
  global_residue :: 'a
  tiles :: "int \<times> int \<Rightarrow> 'a tile"

definition procs :: "'a world \<Rightarrow> (int \<times> int) list" where
  "procs w = concat (map (\<lambda>cx. map (\<lambda>cy. (cx, cy)) [0..P_grid_y w - 1]) [0..P_grid_x w - 1])"

definition map_tiles :: "('a tile \<Rightarrow> 'a tile) \<Rightarrow> 'a world \<Rightarrow> 'a world" where
  "map_tiles f w = w\<lparr>tiles := (\<lambda>c. f (tiles w c))\<rparr>"

text \<open>
  Setup_Proc_Grid makes a grid that does not wrap around, and
  \<open>MPI_Cart_shift(grid_comm, Y_DIR, 1, &proc_top, &proc_bottom)\<close> gives the process one
  step down the axis as \<open>proc_top\<close> and the process one step up as \<open>proc_bottom\<close>,
  \<open>MPI_PROC_NULL\<close> (here \<open>None\<close>) where the step leaves the grid; likewise
  \<open>proc_left\<close> and \<open>proc_right\<close> along \<open>X_DIR\<close>.
\<close>

definition proc_top :: "'a world \<Rightarrow> int \<times> int \<Rightarrow> (int \<times> int) option" where
  "proc_top w = (\<lambda>(cx, cy). if 0 \<le> cy - 1 then Some (cx, cy - 1) else None)"

definition proc_bottom :: "'a world \<Rightarrow> int \<times> int \<Rightarrow> (int \<times> int) option" where
  "proc_bottom w = (\<lambda>(cx, cy). if cy + 1 < P_grid_y w then Some (cx, cy + 1) else None)"

definition proc_left :: "'a world \<Rightarrow> int \<times> int \<Rightarrow> (int \<times> int) option" where
  "proc_left w = (\<lambda>(cx, cy). if 0 \<le> cx - 1 then Some (cx - 1, cy) else None)"

definition proc_right :: "'a world \<Rightarrow> int \<times> int \<Rightarrow> (int \<times> int) option" where
  "proc_right w = (\<lambda>(cx, cy). if cx + 1 < P_grid_x w then Some (cx + 1, cy) else None)"

text \<open>\<open>MPI_Allreduce\<close> with \<open>MPI_SUM\<close> and \<open>MPI_MAX\<close> of one value per process.\<close>

definition Allreduce_SUM :: "double world \<Rightarrow> (double tile \<Rightarrow> double) \<Rightarrow> double" where
  "Allreduce_SUM w f = sum_list (map (\<lambda>c. f (tiles w c)) (procs w))"

definition Allreduce_MAX :: "real world \<Rightarrow> (int \<times> int \<Rightarrow> real) \<Rightarrow> real" where
  "Allreduce_MAX w f = (let vs = map f (procs w) in fold max (tl vs) (hd vs))"

section \<open>Setup_MPI_Datatypes\<close>

text \<open>
  \<open>MPI_Type_vector(count, blocklength, stride, MPI_DOUBLE, &t)\<close> describes \<open>count\<close>
  blocks of \<open>blocklength\<close> elements, the starts of two blocks \<open>stride\<close> elements apart.
\<close>

record vector_type =
  type_count :: int
  type_blocklength :: int
  type_stride :: int

definition Setup_MPI_Datatypes :: "'a tile \<Rightarrow> dir \<Rightarrow> vector_type" where
  "Setup_MPI_Datatypes t d =
     (case d of
        Y_DIR \<Rightarrow> \<lparr>type_count = dim_x t - 2, type_blocklength = 1, type_stride = dim_y t\<rparr>
      | X_DIR \<Rightarrow> \<lparr>type_count = dim_y t - 2, type_blocklength = 1, type_stride = 1\<rparr>)"

text \<open>The elements a vector type covers, as displacements from the buffer's address.\<close>

definition displacements :: "vector_type \<Rightarrow> int list" where
  "displacements v =
     concat (map (\<lambda>i. map (\<lambda>j. i * type_stride v + j) [0..type_blocklength v - 1])
               [0..type_count v - 1])"

section \<open>Exchange_Borders\<close>

definition gather :: "'a buffer \<Rightarrow> int \<Rightarrow> vector_type \<Rightarrow> 'a list" where
  "gather buf base v = map (\<lambda>d. buf (base + d)) (displacements v)"

definition scatter :: "int \<Rightarrow> vector_type \<Rightarrow> 'a list \<Rightarrow> 'a buffer \<Rightarrow> 'a buffer" where
  "scatter base v msg buf = fold (\<lambda>(d, val) b. b(base + d := val)) (zip (displacements v) msg) buf"

text \<open>
  \<open>MPI_Sendrecv(sendbuf, 1, sendtype, dest, tag, recvbuf, 1, recvtype, source, tag, ...)\<close>
  on all processes at once. A process whose \<open>source\<close> is \<open>MPI_PROC_NULL\<close> receives
  nothing and its buffer stays as it is; otherwise it receives the message that its
  source sends in this call, which is addressed to it when it is the \<open>dest\<close> of its
  source. \<open>get\<close> and \<open>upd\<close> select the array that is exchanged.
\<close>

definition MPI_Sendrecv ::
  "('a tile \<Rightarrow> 'a buffer) \<Rightarrow> (('a buffer \<Rightarrow> 'a buffer) \<Rightarrow> 'a tile \<Rightarrow> 'a tile) \<Rightarrow>
   ('a tile \<Rightarrow> int) \<Rightarrow> ('a tile \<Rightarrow> vector_type) \<Rightarrow> (int \<times> int \<Rightarrow> (int \<times> int) option) \<Rightarrow>
   ('a tile \<Rightarrow> int) \<Rightarrow> ('a tile \<Rightarrow> vector_type) \<Rightarrow> (int \<times> int \<Rightarrow> (int \<times> int) option) \<Rightarrow>
   'a world \<Rightarrow> 'a world" where
  "MPI_Sendrecv get upd sendbuf sendtype dest recvbuf recvtype src w =
     w\<lparr>tiles := (\<lambda>c.
        let t = tiles w c in
        case src c of
          None \<Rightarrow> t
        | Some s \<Rightarrow>
            if dest s = Some c
            then let msg = gather (get (tiles w s)) (sendbuf (tiles w s)) (sendtype (tiles w s))
                 in upd (scatter (recvbuf t) (recvtype t) msg) t
            else t)\<rparr>"

text \<open>
  The four calls of \<open>Exchange_Borders\<close>, named by the comments of the source: all traffic
  in direction top, bottom, left and right. \<open>border_type\<close> is what Setup_MPI_Datatypes
  committed.
\<close>

definition traffic_top ::
  "('a tile \<Rightarrow> 'a buffer) \<Rightarrow> (('a buffer \<Rightarrow> 'a buffer) \<Rightarrow> 'a tile \<Rightarrow> 'a tile) \<Rightarrow>
   'a world \<Rightarrow> 'a world" where
  "traffic_top get upd w =
     (let border_type = Setup_MPI_Datatypes
      in MPI_Sendrecv get upd
           (\<lambda>t. idx t 1 1) (\<lambda>t. border_type t Y_DIR) (proc_top w)
           (\<lambda>t. idx t 1 (dim_y t - 1)) (\<lambda>t. border_type t Y_DIR) (proc_bottom w) w)"

definition traffic_bottom ::
  "('a tile \<Rightarrow> 'a buffer) \<Rightarrow> (('a buffer \<Rightarrow> 'a buffer) \<Rightarrow> 'a tile \<Rightarrow> 'a tile) \<Rightarrow>
   'a world \<Rightarrow> 'a world" where
  "traffic_bottom get upd w =
     (let border_type = Setup_MPI_Datatypes
      in MPI_Sendrecv get upd
           (\<lambda>t. idx t 1 (dim_y t - 2)) (\<lambda>t. border_type t Y_DIR) (proc_bottom w)
           (\<lambda>t. idx t 1 0) (\<lambda>t. border_type t Y_DIR) (proc_top w) w)"

definition traffic_left ::
  "('a tile \<Rightarrow> 'a buffer) \<Rightarrow> (('a buffer \<Rightarrow> 'a buffer) \<Rightarrow> 'a tile \<Rightarrow> 'a tile) \<Rightarrow>
   'a world \<Rightarrow> 'a world" where
  "traffic_left get upd w =
     (let border_type = Setup_MPI_Datatypes
      in MPI_Sendrecv get upd
           (\<lambda>t. idx t 1 1) (\<lambda>t. border_type t X_DIR) (proc_left w)
           (\<lambda>t. idx t (dim_x t - 1) 1) (\<lambda>t. border_type t X_DIR) (proc_right w) w)"

definition traffic_right ::
  "('a tile \<Rightarrow> 'a buffer) \<Rightarrow> (('a buffer \<Rightarrow> 'a buffer) \<Rightarrow> 'a tile \<Rightarrow> 'a tile) \<Rightarrow>
   'a world \<Rightarrow> 'a world" where
  "traffic_right get upd w =
     (let border_type = Setup_MPI_Datatypes
      in MPI_Sendrecv get upd
           (\<lambda>t. idx t (dim_x t - 2) 1) (\<lambda>t. border_type t X_DIR) (proc_right w)
           (\<lambda>t. idx t 0 1) (\<lambda>t. border_type t X_DIR) (proc_left w) w)"

definition Exchange_Borders ::
  "('a tile \<Rightarrow> 'a buffer) \<Rightarrow> (('a buffer \<Rightarrow> 'a buffer) \<Rightarrow> 'a tile \<Rightarrow> 'a tile) \<Rightarrow>
   'a world \<Rightarrow> 'a world" where
  "Exchange_Borders get upd w =
     (let w = traffic_top get upd w;
          w = traffic_bottom get upd w;
          w = traffic_left get upd w;
          w = traffic_right get upd w
      in w)"

text \<open>With \<open>CG\<close> defined the array exchanged is \<open>pCG\<close>, otherwise \<open>phi\<close>.\<close>

definition Exchange_Borders_CG :: "double world \<Rightarrow> double world" where
  "Exchange_Borders_CG = Exchange_Borders pCG pCG_update"

definition Exchange_Borders_SOR :: "real world \<Rightarrow> real world" where
  "Exchange_Borders_SOR = Exchange_Borders phi phi_update"

section \<open>Do_Step: one sweep of red-black successive over-relaxation\<close>

definition Do_Step_cell ::
  "int \<Rightarrow> int \<Rightarrow> int \<Rightarrow> int \<Rightarrow> real tile \<times> real \<Rightarrow> real tile \<times> real" where
  "Do_Step_cell parity parity_offset x y = (\<lambda>(t, max_err).
     if c_rem (x + y + parity_offset) 2 = parity \<and> source t (idx t x y) \<noteq> 1
     then
       let omega = 1.95;
           old_phi = phi t (idx t x y);
           c = (phi t (idx t (x + 1) y) + phi t (idx t (x - 1) y) +
                phi t (idx t x (y + 1)) + phi t (idx t x (y - 1))) * 0.25 - old_phi;
           t = t\<lparr>phi := (phi t)(idx t x y := old_phi + omega * c)\<rparr>
       in (t, if max_err < \<bar>old_phi - phi t (idx t x y)\<bar>
              then \<bar>old_phi - phi t (idx t x y)\<bar> else max_err)
     else (t, max_err))"

definition Do_Step :: "int \<Rightarrow> real tile \<Rightarrow> real tile \<times> real" where
  "Do_Step parity t =
     (let max_err = 0;
          parity_offset = offset_x t + offset_y t
      in fold (\<lambda>(x, y). Do_Step_cell parity parity_offset x y) (interior_cells t) (t, max_err))"

section \<open>InitCG and Do_Step_CG: the conjugate gradient method\<close>

definition InitCG_cell :: "int \<Rightarrow> int \<Rightarrow> double tile \<times> double \<Rightarrow> double tile \<times> double" where
  "InitCG_cell x y = (\<lambda>(t, rdotr).
     let t = t\<lparr>rCG := (rCG t)(idx t x y := 0)\<rparr>;
         t = (if source t (idx t x y) \<noteq> 1
              then t\<lparr>rCG := (rCG t)(idx t x y :=
                     (phi t (idx t (x + 1) y) + phi t (idx t (x - 1) y) +
                      phi t (idx t x (y + 1)) + phi t (idx t x (y - 1))) * Fin 0.25)\<rparr>
              else t);
         t = t\<lparr>pCG := (pCG t)(idx t x y := rCG t (idx t x y))\<rparr>
     in (t, rdotr + rCG t (idx t x y) * rCG t (idx t x y)))"

definition InitCG_local :: "double tile \<Rightarrow> double tile \<times> double" where
  "InitCG_local t = fold (\<lambda>(x, y). InitCG_cell x y) (interior_cells t) (t, 0)"

definition InitCG :: "double world \<Rightarrow> double world" where
  "InitCG w =
     (let w1 = map_tiles (\<lambda>t. fst (InitCG_local t)) w
      in w1\<lparr>global_residue := Allreduce_SUM w (\<lambda>t. snd (InitCG_local t))\<rparr>)"

definition calc_v_cell :: "int \<Rightarrow> int \<Rightarrow> double tile \<Rightarrow> double tile" where
  "calc_v_cell x y t =
     (let t = t\<lparr>vCG := (vCG t)(idx t x y := pCG t (idx t x y))\<rparr>
      in if source t (idx t x y) \<noteq> 1
         then t\<lparr>vCG := (vCG t)(idx t x y := vCG t (idx t x y) -
                 (pCG t (idx t (x + 1) y) + pCG t (idx t (x - 1) y) +
                  pCG t (idx t x (y + 1)) + pCG t (idx t x (y - 1))) * Fin 0.25)\<rparr>
         else t)"

definition calc_v :: "double tile \<Rightarrow> double tile" where
  "calc_v t = fold (\<lambda>(x, y). calc_v_cell x y) (interior_cells t) t"

definition calc_pdotv :: "double tile \<Rightarrow> double" where
  "calc_pdotv t =
     fold (\<lambda>(x, y) pdotv. pdotv + pCG t (idx t x y) * vCG t (idx t x y)) (interior_cells t) 0"

definition update_phi :: "double \<Rightarrow> double tile \<Rightarrow> double tile" where
  "update_phi a t =
     fold (\<lambda>(x, y) t. t\<lparr>phi := (phi t)(idx t x y := phi t (idx t x y) + a * pCG t (idx t x y))\<rparr>)
       (interior_cells t) t"

definition update_r :: "double \<Rightarrow> double tile \<Rightarrow> double tile" where
  "update_r a t =
     fold (\<lambda>(x, y) t. t\<lparr>rCG := (rCG t)(idx t x y := rCG t (idx t x y) - a * vCG t (idx t x y))\<rparr>)
       (interior_cells t) t"

definition calc_rdotr :: "double tile \<Rightarrow> double" where
  "calc_rdotr t =
     fold (\<lambda>(x, y) new_rdotr. new_rdotr + rCG t (idx t x y) * rCG t (idx t x y))
       (interior_cells t) 0"

definition update_p :: "double \<Rightarrow> double tile \<Rightarrow> double tile" where
  "update_p g t =
     fold (\<lambda>(x, y) t. t\<lparr>pCG := (pCG t)(idx t x y := rCG t (idx t x y) + g * pCG t (idx t x y))\<rparr>)
       (interior_cells t) t"

text \<open>
  \<open>Do_Step_CG\<close> on all processes, with its two reductions. Neither division is
  preceded by a test of its divisor: the quotient, finite or not, is used as it is.
\<close>

definition Do_Step_CG :: "double world \<Rightarrow> double world" where
  "Do_Step_CG w =
     (let w = map_tiles calc_v w;
          global_pdotv = Allreduce_SUM w calc_pdotv;
          a = global_residue w / global_pdotv;
          w = map_tiles (update_phi a) w;
          w = map_tiles (update_r a) w;
          global_new_rdotr = Allreduce_SUM w calc_rdotr;
          g = global_new_rdotr / global_residue w;
          w = w\<lparr>global_residue := global_new_rdotr\<rparr>
      in map_tiles (update_p g) w)"

section \<open>Solve\<close>

text \<open>The loop of \<open>Solve\<close> with \<open>CG\<close> defined, from the value of \<open>count\<close> on.\<close>

function Solve_CG_loop :: "double \<Rightarrow> int \<Rightarrow> double world \<Rightarrow> int \<Rightarrow> int \<times> double world" where
  "Solve_CG_loop precision_goal max_iter w count =
     (if global_residue w > precision_goal \<and> count < max_iter
      then Solve_CG_loop precision_goal max_iter (Do_Step_CG (Exchange_Borders_CG w)) (count + 1)
      else (count, w))"
  by pat_completeness auto
termination
  by (relation "measure (\<lambda>(precision_goal, max_iter, w, count). nat (max_iter - count))") auto

text \<open>\<open>Solve\<close> returns the count it prints and leaves the grids in the state returned.\<close>

definition Solve_CG :: "double \<Rightarrow> int \<Rightarrow> double world \<Rightarrow> int \<times> double world" where
  "Solve_CG precision_goal max_iter w = Solve_CG_loop precision_goal max_iter (InitCG w) 0"

text \<open>
  The body of the loop without \<open>CG\<close>: two sweeps, each followed by an exchange, and the
  reduction of \<open>max(delta1, delta2)\<close>, where \<open>max(a,b)\<close> is \<open>((a)>(b)?a:b)\<close>.
\<close>

definition SOR_iteration :: "real world \<Rightarrow> real world \<times> real" where
  "SOR_iteration w =
     (let delta1 = (\<lambda>c. snd (Do_Step 0 (tiles w c)));
          w1 = map_tiles (\<lambda>t. fst (Do_Step 0 t)) w;
          w2 = Exchange_Borders_SOR w1;
          delta2 = (\<lambda>c. snd (Do_Step 1 (tiles w2 c)));
          w3 = map_tiles (\<lambda>t. fst (Do_Step 1 t)) w2;
          w4 = Exchange_Borders_SOR w3;
          delta = (\<lambda>c. if delta1 c > delta2 c then delta1 c else delta2 c)
      in (w4, Allreduce_MAX w4 delta))"

function Solve_SOR_loop ::
  "real \<Rightarrow> int \<Rightarrow> real world \<Rightarrow> real \<Rightarrow> int \<Rightarrow> int \<times> real world \<times> real" where
  "Solve_SOR_loop precision_goal max_iter w global_delta count =
     (if global_delta > precision_goal \<and> count < max_iter
      then case SOR_iteration w of
             (w', global_delta') \<Rightarrow> Solve_SOR_loop precision_goal max_iter w' global_delta' (count + 1)
      else (count, w, global_delta))"
  by pat_completeness auto
termination
  by (relation "measure (\<lambda>(precision_goal, max_iter, w, global_delta, count). nat (max_iter - count))")
    auto

definition Solve_SOR :: "real \<Rightarrow> int \<Rightarrow> real world \<Rightarrow> int \<times> real world \<times> real" where
  "Solve_SOR precision_goal max_iter w =
     Solve_SOR_loop precision_goal max_iter w (2 * precision_goal) 0"

declare Solve_CG_loop.simps [simp del]

declare Solve_SOR_loop.simps [simp del]

section \<open>The program up to Solve\<close>

text \<open>
  \<open>main\<close> calls Setup_Proc_Grid and Setup_Grid on every process before \<open>Solve\<close>;
  \<open>global_residue\<close>, a variable at file scope, starts as 0.
\<close>

definition Setup ::
  "int \<times> int \<Rightarrow> int \<times> int \<Rightarrow> (real \<times> real \<times> 'a) list \<Rightarrow> 'a buffer \<Rightarrow> 'a::zero world" where
  "Setup P_grid gridsize sources heap =
     \<lparr>P_grid_x = fst P_grid, P_grid_y = snd P_grid, global_residue = 0,
      tiles = Setup_Grid gridsize P_grid sources heap\<rparr>"

section \<open>Notions used to state the properties\<close>

text \<open>The state after \<open>n\<close> passes through the body of the loop of \<open>Solve\<close>.\<close>

fun CG_iterations :: "nat \<Rightarrow> double world \<Rightarrow> double world" where
  "CG_iterations 0 w = w"
| "CG_iterations (Suc n) w = CG_iterations n (Do_Step_CG (Exchange_Borders_CG w))"

fun SOR_iterations :: "nat \<Rightarrow> real world \<times> real \<Rightarrow> real world \<times> real" where
  "SOR_iterations 0 s = s"
| "SOR_iterations (Suc n) s = SOR_iterations n (SOR_iteration (fst s))"

text \<open>
  A run of the loop that starts at \<open>count\<close> in the state \<open>w\<close>, passes \<open>n\<close> times through
  the body and leaves the loop at \<open>count'\<close> in the state \<open>w'\<close>: the condition of the loop
  holds before each pass and fails at the end.
\<close>

definition CG_run ::
  "double \<Rightarrow> int \<Rightarrow> double world \<Rightarrow> int \<Rightarrow> int \<Rightarrow> double world \<Rightarrow> nat \<Rightarrow> bool" where
  "CG_run goal max_iter w count count' w' n \<longleftrightarrow>
     count' = count + int n \<and> CG_iterations n w = w'
     \<and> \<not> (global_residue w' > goal \<and> count' < max_iter)
     \<and> (\<forall>j<n. global_residue (CG_iterations j w) > goal \<and> count + int j < max_iter)"

definition SOR_run ::
  "real \<Rightarrow> int \<Rightarrow> real world \<times> real \<Rightarrow> int \<Rightarrow> int \<Rightarrow> real world \<times> real \<Rightarrow> nat \<Rightarrow> bool" where
  "SOR_run goal max_iter s count count' s' n \<longleftrightarrow>
     count' = count + int n \<and> SOR_iterations n s = s'
     \<and> \<not> (snd s' > goal \<and> count' < max_iter)
     \<and> (\<forall>j<n. snd (SOR_iterations j s) > goal \<and> count + int j < max_iter)"

text \<open>A local grid whose field is 0 everywhere, border included.\<close>

definition zero_field :: "'a::zero tile \<Rightarrow> bool" where
  "zero_field t \<longleftrightarrow>
     (\<forall>x y. 0 \<le> x \<and> x < dim_x t \<and> 0 \<le> y \<and> y < dim_y t \<longrightarrow> phi t (idx t x y) = 0)"

section \<open>Example runs\<close>

text \<open>
  One process with a grid of 2 by 1 cells and one source of value 4 in the first cell;
  the memory of the arrays of \<open>InitCG\<close> holds zeros. The run is defined for both types
  of values.
\<close>

definition one_source :: "'a::{zero,numeral} world" where
  "one_source = Setup (1, 1) (2, 1) [(0, 0, 4)] (\<lambda>a. 0)"

text \<open>The same, but the memory that \<open>pCG\<close> gets holds a 4 left by an earlier use.\<close>

definition stale_heap :: "'a::{zero,numeral} world" where
  "stale_heap = Setup (1, 1) (2, 1) [(0, 0, 4)] (\<lambda>a. if a = 10 then 4 else 0)"

text \<open>One process, 2 by 1 cells, no source.\<close>

definition no_source :: "'a::zero world" where
  "no_source = Setup (1, 1) (2, 1) [] (\<lambda>a. 0)"

section \<open>Notions used to state the sweeps\<close>

text \<open>
  The cells a sweep of parity \<open>parity\<close> is to update, and the value it is to give them,
  both read in the grid before the sweep.
\<close>

definition updated :: "int \<Rightarrow> 'a tile \<Rightarrow> int \<times> int \<Rightarrow> bool" where
  "updated parity t = (\<lambda>(x, y).
     (x + y + offset_x t + offset_y t) mod 2 = parity \<and> source t (idx t x y) \<noteq> 1)"

definition neighbours :: "'a tile \<Rightarrow> 'a::plus buffer \<Rightarrow> int \<times> int \<Rightarrow> 'a" where
  "neighbours t buf = (\<lambda>(x, y).
     buf (idx t (x + 1) y) + buf (idx t (x - 1) y) + buf (idx t x (y + 1)) + buf (idx t x (y - 1)))"

definition relaxed :: "real tile \<Rightarrow> int \<times> int \<Rightarrow> real" where
  "relaxed t = (\<lambda>(x, y).
     phi t (idx t x y) + 1.95 * (0.25 * neighbours t (phi t) (x, y) - phi t (idx t x y)))"

text \<open>
  The product of the matrix of the method with \<open>pCG\<close> at a cell: the identity at a cell
  marked as a source.
\<close>

definition matvec :: "double tile \<Rightarrow> int \<times> int \<Rightarrow> double" where
  "matvec t = (\<lambda>(x, y).
     if source t (idx t x y) \<noteq> 1
     then pCG t (idx t x y) - Fin 0.25 * neighbours t (pCG t) (x, y)
     else pCG t (idx t x y))"

text \<open>The sum over all processes of the sum over the interior cells.\<close>

definition global_sum :: "double world \<Rightarrow> (double tile \<Rightarrow> int \<times> int \<Rightarrow> double) \<Rightarrow> double" where
  "global_sum w f = (\<Sum>c\<leftarrow>procs w. \<Sum>cell\<leftarrow>interior_cells (tiles w c). f (tiles w c) cell)"

text \<open>
  The quantities of one iteration of the method, read in the state \<open>w\<close> before it: the
  step length \<open>a\<close>, the new residual at a cell, its global squared norm, and \<open>gamma\<close>.
\<close>

definition global_pdotv :: "double world \<Rightarrow> double" where
  "global_pdotv w = global_sum w (\<lambda>t (x, y). pCG t (idx t x y) * matvec t (x, y))"

definition step_length :: "double world \<Rightarrow> double" where
  "step_length w = global_residue w / global_pdotv w"

definition new_r :: "double world \<Rightarrow> double tile \<Rightarrow> int \<times> int \<Rightarrow> double" where
  "new_r w t = (\<lambda>(x, y). rCG t (idx t x y) - step_length w * matvec t (x, y))"

definition new_rdotr :: "double world \<Rightarrow> double" where
  "new_rdotr w = global_sum w (\<lambda>t cell. new_r w t cell * new_r w t cell)"

definition gamma :: "double world \<Rightarrow> double" where
  "gamma w = new_rdotr w / global_residue w"

section \<open>Notions used to state the exchange\<close>

text \<open>
  The processes of the grid. A world is well formed when every process has a non-empty
  interior and the processes of one column of the process grid have the same \<open>dim_x\<close>,
  those of one row the same \<open>dim_y\<close>: this is what Setup_Grid gives when no axis has
  fewer cells than processes.
\<close>

definition in_grid :: "'a world \<Rightarrow> int \<times> int \<Rightarrow> bool" where
  "in_grid w = (\<lambda>(cx, cy). 0 \<le> cx \<and> cx < P_grid_x w \<and> 0 \<le> cy \<and> cy < P_grid_y w)"

definition well_formed :: "'a world \<Rightarrow> bool" where
  "well_formed w \<longleftrightarrow>
     (\<forall>cx cy. in_grid w (cx, cy) \<longrightarrow>
        3 \<le> dim_x (tiles w (cx, cy)) \<and> 3 \<le> dim_y (tiles w (cx, cy))
        \<and> dim_x (tiles w (cx, cy)) = dim_x (tiles w (cx, 0))
        \<and> dim_y (tiles w (cx, cy)) = dim_y (tiles w (0, cy)))"

text \<open>
  An array of the grid, given by its selector and its update: \<open>phi\<close> or \<open>pCG\<close>. The
  update changes nothing else.
\<close>

definition field ::
  "('a tile \<Rightarrow> 'a buffer) \<Rightarrow> (('a buffer \<Rightarrow> 'a buffer) \<Rightarrow> 'a tile \<Rightarrow> 'a tile) \<Rightarrow> bool" where
  "field get upd \<longleftrightarrow>
     (get = phi \<and> upd = phi_update) \<or> (get = pCG \<and> upd = pCG_update)"

text \<open>
  Two processes side by side, each with one interior cell, and one source of value 4 in
  the cell of the first.
\<close>

definition two_processes :: "real world" where
  "two_processes = Setup (2, 1) (2, 1) [(0, 0, 4)] (\<lambda>a. 0)"

section \<open>Notions used to state the fixed sources\<close>

text \<open>Every element marked as a source is an interior cell, as Setup_Grid leaves it.\<close>

definition sources_interior :: "'a tile \<Rightarrow> bool" where
  "sources_interior t \<longleftrightarrow>
     (\<forall>a. source t a = 1 \<longrightarrow> a \<in> (\<lambda>(x, y). idx t x y) ` set (interior_cells t))"



text \<open>The residual that \<open>InitCG\<close> gives a cell.\<close>

definition initial_r :: "double tile \<Rightarrow> int \<times> int \<Rightarrow> double" where
  "initial_r t = (\<lambda>(x, y).
     if source t (idx t x y) \<noteq> 1 then neighbours t (phi t) (x, y) * Fin 0.25 else 0)"


section \<open>Arithmetic on the values of type double\<close>

lemma numeral_double: "(numeral n :: double) = Fin (numeral n)"
  by (induction n) (simp_all only: numeral.simps one_double_def plus_double.simps)

lemmas double_eval = zero_double_def one_double_def numeral_double minus_double_def

lemma mult_double_commute: "a * b = b * (a :: double)"
  by (cases a; cases b) simp_all



lemma not_finite_mult: "\<not> is_finite a \<Longrightarrow> \<not> is_finite (a * p)"
  by (cases a; cases p) simp_all

lemma not_finite_add: "\<not> is_finite b \<Longrightarrow> \<not> is_finite (a + b)"
  by (cases a; cases b) simp_all

lemma not_finite_divide_zero: "\<not> is_finite (a / (0::double))"
  by (cases a) (simp_all add: zero_double_def)

lemma finite_divide: "is_finite a \<Longrightarrow> is_finite b \<Longrightarrow> b \<noteq> 0 \<Longrightarrow> is_finite (a / b)"
  by (cases a; cases b) (simp_all add: zero_double_def)

lemma positive_not_NaN: "(0::double) < g \<Longrightarrow> g \<noteq> NaN"
  by (cases g) simp_all

lemma not_less_double: "g \<noteq> NaN \<Longrightarrow> \<not> g < r \<longleftrightarrow> r \<le> g \<or> r = NaN"
  by (cases g; cases r) auto

lemma not_less_zero_double: "(0::double) < g \<Longrightarrow> \<not> g < 0"
  by (cases g) (simp_all add: zero_double_def)


section \<open>Facts about C integers\<close>

lemma int32_id: "- (2 ^ 31) \<le> v \<Longrightarrow> v < 2 ^ 31 \<Longrightarrow> int32 v = v"
  by (simp add: int32_def)

lemma c_div_nonneg: "0 \<le> a \<Longrightarrow> 0 < b \<Longrightarrow> c_div a b = a div b"
  by (cases "a = 0") (simp_all add: c_div_def)

lemma c_rem_nonneg: "0 \<le> a \<Longrightarrow> 0 < b \<Longrightarrow> c_rem a b = a mod b"
  by (simp add: c_rem_def c_div_nonneg minus_mult_div_eq_mod)

lemma div_le_iff_int:
  fixes P :: int
  assumes "0 < P"
  shows "a div P \<le> g \<longleftrightarrow> a < (g + 1) * P"
proof -
  have e: "a - (g + 1) * P = a + (- (g + 1)) * P"
    by (simp add: algebra_simps)
  have "(a - (g + 1) * P) div P = a div P - (g + 1)"
    unfolding e using assms by (subst div_mult_self1) auto
  moreover have "(a - (g + 1) * P) div P < 0 \<longleftrightarrow> a - (g + 1) * P < 0"
    using assms by (rule pos_imp_zdiv_neg_iff)
  ultimately show ?thesis by auto
qed

lemma less_div_iff_int:
  fixes P :: int
  assumes "0 < P"
  shows "g < a div P \<longleftrightarrow> (g + 1) * P \<le> a"
  using div_le_iff_int [OF assms, of a g] by auto

section \<open>The partition of an axis\<close>

text \<open>
  Which process owns the global cell \<open>g\<close>: with exact products, \<open>g\<close> lies between
  \<open>n * c div P\<close> and \<open>n * (c + 1) div P\<close> for exactly one \<open>c\<close>.
\<close>

lemma owner_iff:
  fixes n :: int
  assumes "0 < n" "0 < P"
  shows "((n * c) div P \<le> g \<and> g < (n * (c + 1)) div P) \<longleftrightarrow> c = ((g + 1) * P - 1) div n"
proof -
  have "((n * c) div P \<le> g \<and> g < (n * (c + 1)) div P)
     \<longleftrightarrow> (n * c < (g + 1) * P \<and> (g + 1) * P \<le> n * (c + 1))"
    by (simp only: div_le_iff_int [OF assms(2)] less_div_iff_int [OF assms(2)])
  also have "\<dots> \<longleftrightarrow> (c \<le> ((g + 1) * P - 1) div n \<and> ((g + 1) * P - 1) div n < c + 1)"
  proof -
    have a: "((g + 1) * P - 1) div n < c + 1 \<longleftrightarrow> (g + 1) * P - 1 < (c + 1) * n"
      using div_le_iff_int [OF assms(1), of "(g + 1) * P - 1" c] by auto
    have b: "c \<le> ((g + 1) * P - 1) div n \<longleftrightarrow> c * n \<le> (g + 1) * P - 1"
      using less_div_iff_int [OF assms(1), of "c - 1" "(g + 1) * P - 1"] by auto
    show ?thesis unfolding a b by (auto simp: algebra_simps)
  qed
  also have "\<dots> \<longleftrightarrow> c = ((g + 1) * P - 1) div n" by auto
  finally show ?thesis .
qed

lemma prod_bounds:
  fixes n :: int
  assumes "1 \<le> n" "1 \<le> P" "n * P < 2 ^ 31" "0 \<le> c" "c \<le> P"
  shows "0 \<le> n * c" and "n * c < 2 ^ 31" and "c < 2 ^ 31"
proof -
  show "0 \<le> n * c" using assms by simp
  have "n * c \<le> n * P" using assms by (intro mult_left_mono) auto
  then show "n * c < 2 ^ 31" using assms by linarith
  have "1 * c \<le> n * c" using assms by (intro mult_right_mono) auto
  then show "c < 2 ^ 31" using \<open>n * c < 2 ^ 31\<close> by linarith
qed

lemma int32_nonneg: "0 \<le> v \<Longrightarrow> v < 2 ^ 31 \<Longrightarrow> int32 v = v"
  by (simp add: int32_def)

lemma offset_of_exact:
  assumes "1 \<le> n" "1 \<le> P" "n * P < 2 ^ 31" "0 \<le> c" "c \<le> P"
  shows "offset_of n c P = (n * c) div P"
proof -
  have "int32 (n * c) = n * c"
    using prod_bounds [OF assms] by (intro int32_nonneg)
  then show ?thesis
    using prod_bounds(1) [OF assms] assms by (simp add: offset_of_def c_div_nonneg)
qed

lemma upper_offset_of_exact:
  assumes "1 \<le> n" "1 \<le> P" "n * P < 2 ^ 31" "0 \<le> c" "c < P"
  shows "upper_offset_of n c P = (n * (c + 1)) div P"
proof -
  have c1: "0 \<le> c + 1" "c + 1 \<le> P" using assms by auto
  have "int32 (c + 1) = c + 1"
    using prod_bounds(3) [OF assms(1-3) c1] c1 by (intro int32_nonneg)
  moreover have "int32 (n * (c + 1)) = n * (c + 1)"
    using prod_bounds [OF assms(1-3) c1] by (intro int32_nonneg)
  moreover have "0 \<le> n * (c + 1)"
    by (rule prod_bounds(1) [OF assms(1-3) c1])
  ultimately show ?thesis
    using assms by (simp add: upper_offset_of_def c_div_nonneg)
qed

lemma interior_interval_iff:
  assumes "1 \<le> n" "1 \<le> P" "n * P < 2 ^ 31" "0 \<le> c" "c < P"
  shows "g \<in> interior_interval n c P \<longleftrightarrow> c = ((g + 1) * P - 1) div n"
  using assms owner_iff [of n P c g]
  by (simp add: interior_interval_def offset_of_exact upper_offset_of_exact)

lemma owner_in_range:
  fixes n :: int
  assumes "1 \<le> n" "1 \<le> P" "0 \<le> g" "g < n"
  shows "0 \<le> ((g + 1) * P - 1) div n" and "((g + 1) * P - 1) div n < P"
proof -
  have "0 \<le> (g + 1) * P - 1"
  proof -
    have "1 * 1 \<le> (g + 1) * P" using assms by (intro mult_mono) auto
    then show ?thesis by simp
  qed
  then show "0 \<le> ((g + 1) * P - 1) div n"
    using assms by (simp add: pos_imp_zdiv_nonneg_iff)
  have "(g + 1) * P \<le> n * P" using assms by (intro mult_right_mono) auto
  then have "(g + 1) * P - 1 < (P - 1 + 1) * n" by (simp add: algebra_simps)
  then have "((g + 1) * P - 1) div n \<le> P - 1"
    using div_le_iff_int [of n "(g + 1) * P - 1" "P - 1"] assms by simp
  then show "((g + 1) * P - 1) div n < P" by simp
qed

lemma interval_bounds:
  assumes "1 \<le> n" "1 \<le> P" "n * P < 2 ^ 31" "0 \<le> c" "c < P"
  shows "0 \<le> offset_of n c P" and "offset_of n c P \<le> upper_offset_of n c P"
    and "upper_offset_of n c P \<le> n"
proof -
  have o: "offset_of n c P = (n * c) div P" using assms by (simp add: offset_of_exact)
  have u: "upper_offset_of n c P = (n * (c + 1)) div P" using assms by (simp add: upper_offset_of_exact)
  show "0 \<le> offset_of n c P" using assms by (simp add: o pos_imp_zdiv_nonneg_iff)
  have "n * c \<le> n * (c + 1)" using assms by (simp add: algebra_simps)
  then show "offset_of n c P \<le> upper_offset_of n c P"
    unfolding o u using assms by (intro zdiv_mono1) auto
  have "n * (c + 1) \<le> n * P" using assms by (intro mult_left_mono) auto
  then have "(n * (c + 1)) div P \<le> (n * P) div P" using assms by (intro zdiv_mono1) auto
  then show "upper_offset_of n c P \<le> n" using assms by (simp add: u)
qed


text \<open>
  Claim C1, as the code supports it. For an axis of \<open>n \<ge> 1\<close> cells and
  \<open>P \<ge> 1\<close> processes whose product \<open>n * P\<close> fits the program's 32-bit \<open>int\<close>, the
  interior intervals that \<open>Setup_Grid\<close> computes for the coordinates \<open>0 .. P - 1\<close> are
  contiguous (each starts where the previous one ends, the first at 0, the last ending
  at \<open>n\<close>), pairwise disjoint, and their union is exactly \<open>[0, n)\<close>: every global cell
  lies in the interior of exactly one process.
\<close>

theorem partition_coverage:
  assumes "1 \<le> n" "1 \<le> P" "n * P < 2 ^ 31"
  shows "(\<forall>c. 0 \<le> c \<and> c + 1 < P \<longrightarrow> upper_offset_of n c P = offset_of n (c + 1) P)
    \<and> offset_of n 0 P = 0 \<and> upper_offset_of n (P - 1) P = n
    \<and> (\<forall>c c'. 0 \<le> c \<and> c < c' \<and> c' < P \<longrightarrow>
          interior_interval n c P \<inter> interior_interval n c' P = {})
    \<and> (\<Union>c\<in>{0..<P}. interior_interval n c P) = {0..<n}
    \<and> (\<forall>g. 0 \<le> g \<and> g < n \<longrightarrow> (\<exists>!c. 0 \<le> c \<and> c < P \<and> g \<in> interior_interval n c P))"
proof (intro conjI allI impI)
  fix c assume "0 \<le> c \<and> c + 1 < P"
  then show "upper_offset_of n c P = offset_of n (c + 1) P"
    using assms by (simp add: offset_of_exact upper_offset_of_exact)
next
  show "offset_of n 0 P = 0"
    using assms by (simp add: offset_of_exact)
next
  show "upper_offset_of n (P - 1) P = n"
    using assms by (simp add: upper_offset_of_exact)
next
  fix c c' assume "0 \<le> c \<and> c < c' \<and> c' < P"
  then show "interior_interval n c P \<inter> interior_interval n c' P = {}"
    using assms by (auto simp: interior_interval_iff)
next
  show "(\<Union>c\<in>{0..<P}. interior_interval n c P) = {0..<n}"
  proof (intro set_eqI iffI)
    fix g assume "g \<in> (\<Union>c\<in>{0..<P}. interior_interval n c P)"
    then obtain c where c: "0 \<le> c" "c < P" and g: "g \<in> interior_interval n c P"
      by auto
    from g interval_bounds [OF assms c] show "g \<in> {0..<n}"
      by (simp add: interior_interval_def)
  next
    fix g assume "g \<in> {0..<n}"
    then have g: "0 \<le> g" "g < n" by auto
    let ?c = "((g + 1) * P - 1) div n"
    have "g \<in> interior_interval n ?c P"
      using interior_interval_iff [OF assms owner_in_range [OF assms(1,2) g]] by simp
    then show "g \<in> (\<Union>c\<in>{0..<P}. interior_interval n c P)"
      using owner_in_range [OF assms(1,2) g] by auto
  qed
next
  fix g assume "0 \<le> g \<and> g < n"
  then have g: "0 \<le> g" "g < n" by auto
  let ?c = "((g + 1) * P - 1) div n"
  show "\<exists>!c. 0 \<le> c \<and> c < P \<and> g \<in> interior_interval n c P"
  proof (rule ex1I [of _ ?c])
    show "0 \<le> ?c \<and> ?c < P \<and> g \<in> interior_interval n ?c P"
      using interior_interval_iff [OF assms owner_in_range [OF assms(1,2) g]]
        owner_in_range [OF assms(1,2) g] by simp
  next
    fix c assume "0 \<le> c \<and> c < P \<and> g \<in> interior_interval n c P"
    then show "c = ?c"
      using interior_interval_iff [OF assms, of c g] by simp
  qed
qed

text \<open>The theorem at 5 cells on 2 processes: the intervals are [0, 2) and [2, 5).\<close>

theorem partition_coverage_witness:
  "(1::int) \<le> 5 \<and> (1::int) \<le> 2 \<and> (5::int) * 2 < 2 ^ 31
   \<and> offset_of 5 0 2 = 0 \<and> upper_offset_of 5 0 2 = offset_of 5 1 2
   \<and> upper_offset_of 5 1 2 = 5
   \<and> interior_interval 5 0 2 \<inter> interior_interval 5 1 2 = {}
   \<and> (\<Union>c\<in>{0..<2}. interior_interval 5 c 2) = {0..<5}"
  using partition_coverage [of 5 2] by simp

text \<open>
  Claim C1 as stated, for every \<open>n \<ge> 1\<close> and \<open>P \<ge> 1\<close>, fails where the product
  overflows: with \<open>gridsize = 2^30\<close> on 2 processes, \<open>gridsize * (1 + 1)\<close> wraps to
  \<open>-2^31\<close>, the second process gets the empty interval from \<open>2^29\<close> to \<open>-2^30\<close>,
  and the cell \<open>2^30 - 1\<close> belongs to no process.
\<close>

theorem partition_overflow_counterexample:
  "(1::int) \<le> 1073741824 \<and> (1::int) \<le> 2
   \<and> offset_of 1073741824 1 2 = 536870912
   \<and> upper_offset_of 1073741824 1 2 = - 1073741824
   \<and> upper_offset_of 1073741824 (2 - 1) 2 \<noteq> 1073741824
   \<and> 1073741823 \<notin> interior_interval 1073741824 0 2
   \<and> 1073741823 \<notin> interior_interval 1073741824 1 2"
  by (simp add: interior_interval_def offset_of_def upper_offset_of_def int32_def c_div_def)

section \<open>Loops over lists\<close>


lemma fold_invariant:
  assumes "P s" and "\<And>c s. c \<in> set cs \<Longrightarrow> P s \<Longrightarrow> P (f c s)"
  shows "P (fold f cs s)"
  using assms by (induction cs arbitrary: s) auto

lemma upto_shift: "map (\<lambda>i. i + k) [a..b] = [a + k..b + k]"
proof (induction a b rule: upto.induct)
  case (1 i j)
  show ?case
  proof (cases "i \<le> j")
    case True
    then show ?thesis
      using 1 by (simp add: upto_rec1 [of i j] upto_rec1 [of "i + k" "j + k"] add.commute add.left_commute)
  next
    case False
    then show ?thesis by simp
  qed
qed

lemma displacements_Y:
  "displacements (Setup_MPI_Datatypes t Y_DIR) = map (\<lambda>i. i * dim_y t) [0..dim_x t - 3]"
  by (simp add: displacements_def Setup_MPI_Datatypes_def concat_map_singleton)

lemma displacements_X:
  "displacements (Setup_MPI_Datatypes t X_DIR) = [0..dim_y t - 3]"
  by (simp add: displacements_def Setup_MPI_Datatypes_def)

lemma gather_Y:
  "gather buf (idx t 1 y) (Setup_MPI_Datatypes t Y_DIR) = map (\<lambda>x. buf (idx t x y)) [1..dim_x t - 2]"
proof -
  have "map (\<lambda>x. buf (idx t x y)) [1..dim_x t - 2]
      = map (\<lambda>x. buf (idx t x y)) (map (\<lambda>i. i + 1) [0..dim_x t - 3])"
    by (simp only: upto_shift) simp
  then show ?thesis
    by (simp add: gather_def displacements_Y idx_def o_def algebra_simps)
qed

lemma gather_X:
  "gather buf (idx t x 1) (Setup_MPI_Datatypes t X_DIR) = map (\<lambda>y. buf (idx t x y)) [1..dim_y t - 2]"
proof -
  have "map (\<lambda>y. buf (idx t x y)) [1..dim_y t - 2]
      = map (\<lambda>y. buf (idx t x y)) (map (\<lambda>i. i + 1) [0..dim_y t - 3])"
    by (simp only: upto_shift) simp
  then show ?thesis
    by (simp add: gather_def displacements_X idx_def o_def algebra_simps)
qed


lemma interior_cells_iff:
  "(x, y) \<in> set (interior_cells t) \<longleftrightarrow> 1 \<le> x \<and> x \<le> dim_x t - 2 \<and> 1 \<le> y \<and> y \<le> dim_y t - 2"
  by (auto simp: interior_cells_def image_iff)

lemma InitCG_cell_frame:
  "phi (fst (InitCG_cell x y s)) = phi (fst s)
   \<and> source (fst (InitCG_cell x y s)) = source (fst s)
   \<and> dim_x (fst (InitCG_cell x y s)) = dim_x (fst s)
   \<and> dim_y (fst (InitCG_cell x y s)) = dim_y (fst s)
   \<and> offset_x (fst (InitCG_cell x y s)) = offset_x (fst s)
   \<and> offset_y (fst (InitCG_cell x y s)) = offset_y (fst s)"
  by (cases s) (simp add: InitCG_cell_def Let_def idx_def)

lemma InitCG_local_frame:
  "phi (fst (InitCG_local t)) = phi t
   \<and> source (fst (InitCG_local t)) = source t
   \<and> dim_x (fst (InitCG_local t)) = dim_x t
   \<and> dim_y (fst (InitCG_local t)) = dim_y t
   \<and> offset_x (fst (InitCG_local t)) = offset_x t
   \<and> offset_y (fst (InitCG_local t)) = offset_y t"
  unfolding InitCG_local_def
  by (rule fold_invariant) (auto simp: InitCG_cell_frame)

lemma InitCG_phi: "phi (tiles (InitCG w) c) = phi (tiles w c)"
  by (simp add: InitCG_def map_tiles_def Let_def InitCG_local_frame)

lemma InitCG_local_zero:
  assumes "zero_field t"
  shows "snd (InitCG_local t) = 0"
proof -
  let ?P = "\<lambda>s :: double tile \<times> double. phi (fst s) = phi t \<and> dim_x (fst s) = dim_x t \<and> dim_y (fst s) = dim_y t \<and> snd s = 0"
  have "?P (fold (\<lambda>(x, y). InitCG_cell x y) (interior_cells t) (t, 0))"
  proof (rule fold_invariant)
    show "?P (t, 0)" by simp
  next
    fix c s assume c: "c \<in> set (interior_cells t)" and s: "?P s"
    obtain x y where xy: "c = (x, y)" by (cases c)
    obtain t' r where tr: "s = (t', r)" by (cases s)
    from c xy have r: "1 \<le> x" "x \<le> dim_x t - 2" "1 \<le> y" "y \<le> dim_y t - 2"
      by (simp_all add: interior_cells_iff)
    have i: "idx t' = idx t" using s tr by (simp add: idx_def fun_eq_iff)
    have z: "phi t (idx t (x + 1) y) = 0" "phi t (idx t (x - 1) y) = 0"
      "phi t (idx t x (y + 1)) = 0" "phi t (idx t x (y - 1)) = 0"
      using assms r unfolding zero_field_def by auto
    show "?P ((case c of (x, y) \<Rightarrow> InitCG_cell x y) s)"
      using s tr z i InitCG_cell_frame [of x y s]
      by (simp add: xy InitCG_cell_def Let_def idx_def zero_double_def)
  qed
  then show ?thesis by (simp add: InitCG_local_def)
qed

lemma Solve_CG_loop_stop:
  "\<not> (global_residue w > precision_goal \<and> count < max_iter)
   \<Longrightarrow> Solve_CG_loop precision_goal max_iter w count = (count, w)"
  by (subst Solve_CG_loop.simps) auto

section \<open>The loop of Solve\<close>


lemma CG_run_0:
  "CG_run goal max_iter w count count' w' 0 \<longleftrightarrow>
     count' = count \<and> w' = w \<and> \<not> (global_residue w > goal \<and> count < max_iter)"
  by (auto simp: CG_run_def)

lemma CG_run_Suc:
  "CG_run goal max_iter w count count' w' (Suc n) \<longleftrightarrow>
     global_residue w > goal \<and> count < max_iter
     \<and> CG_run goal max_iter (Do_Step_CG (Exchange_Borders_CG w)) (count + 1) count' w' n"
proof -
  have all_Suc: "\<And>P. (\<forall>j<Suc n. P j) \<longleftrightarrow> P 0 \<and> (\<forall>j<n. P (Suc j))"
    by (metis less_Suc_eq_0_disj Suc_less_eq zero_less_Suc)
  show ?thesis
    unfolding CG_run_def all_Suc by (auto simp: algebra_simps)
qed

lemma Solve_CG_loop_char:
  "Solve_CG_loop goal max_iter w count = (count', w')
     \<longleftrightarrow> (\<exists>n. CG_run goal max_iter w count count' w' n)"
proof (induction goal max_iter w count rule: Solve_CG_loop.induct)
  case (1 goal max_iter w count)
  have ex: "\<And>P. (\<exists>n. P n) \<longleftrightarrow> P 0 \<or> (\<exists>n. P (Suc n))"
    by (metis not0_implies_Suc)
  show ?case
  proof (cases "global_residue w > goal \<and> count < max_iter")
    case False
    then show ?thesis
      by (subst Solve_CG_loop.simps, subst ex) (auto simp: CG_run_0 CG_run_Suc)
  next
    case True
    with 1 [OF True] show ?thesis
      by (subst Solve_CG_loop.simps, subst ex) (auto simp: CG_run_0 CG_run_Suc)
  qed
qed


lemma SOR_run_0:
  "SOR_run goal max_iter s count count' s' 0 \<longleftrightarrow>
     count' = count \<and> s' = s \<and> \<not> (snd s > goal \<and> count < max_iter)"
  by (auto simp: SOR_run_def)

lemma SOR_run_Suc:
  "SOR_run goal max_iter s count count' s' (Suc n) \<longleftrightarrow>
     snd s > goal \<and> count < max_iter
     \<and> SOR_run goal max_iter (SOR_iteration (fst s)) (count + 1) count' s' n"
proof -
  have all_Suc: "\<And>P. (\<forall>j<Suc n. P j) \<longleftrightarrow> P 0 \<and> (\<forall>j<n. P (Suc j))"
    by (metis less_Suc_eq_0_disj Suc_less_eq zero_less_Suc)
  show ?thesis
    unfolding SOR_run_def all_Suc by (auto simp: algebra_simps)
qed

lemma Solve_SOR_loop_char:
  "Solve_SOR_loop goal max_iter w global_delta count = (count', w', global_delta')
     \<longleftrightarrow> (\<exists>n. SOR_run goal max_iter (w, global_delta) count count' (w', global_delta') n)"
proof (induction goal max_iter w global_delta count rule: Solve_SOR_loop.induct)
  case (1 goal max_iter w global_delta count)
  have ex: "\<And>P. (\<exists>n. P n) \<longleftrightarrow> P 0 \<or> (\<exists>n. P (Suc n))"
    by (metis not0_implies_Suc)
  show ?case
  proof (cases "global_delta > goal \<and> count < max_iter")
    case False
    then show ?thesis
      by (subst Solve_SOR_loop.simps, subst ex) (auto simp: SOR_run_0 SOR_run_Suc)
  next
    case True
    obtain w1 d1 where s: "SOR_iteration w = (w1, d1)"
      by (cases "SOR_iteration w")
    from True 1 [OF True s [symmetric]] s show ?thesis
      by (subst Solve_SOR_loop.simps, subst ex) (auto simp: SOR_run_0 SOR_run_Suc)
  qed
qed

lemma run_bounds:
  fixes max_iter :: int
  assumes "0 < max_iter"
  shows "(\<not> (B \<and> int n < max_iter) \<and> (\<forall>j<n. P j \<and> int j < max_iter))
     \<longleftrightarrow> ((\<not> B \<or> int n = max_iter) \<and> int n \<le> max_iter \<and> (\<forall>j<n. P j))"
proof (cases n)
  case 0
  then show ?thesis using assms by auto
next
  case (Suc m)
  have "(\<forall>j<n. P j \<and> int j < max_iter) \<longleftrightarrow> (\<forall>j<n. P j) \<and> int n \<le> max_iter"
  proof (intro iffI conjI allI impI)
    fix j assume a: "\<forall>j<n. P j \<and> int j < max_iter" and "j < n"
    then show "P j" by simp
  next
    assume a: "\<forall>j<n. P j \<and> int j < max_iter"
    then have "int m < max_iter" using Suc by simp
    then show "int n \<le> max_iter" using Suc by simp
  next
    fix j assume "(\<forall>j<n. P j) \<and> int n \<le> max_iter" and "j < n"
    then show "P j" by simp
  next
    fix j assume "(\<forall>j<n. P j) \<and> int n \<le> max_iter" and "j < n"
    then show "int j < max_iter" by simp
  qed
  then show ?thesis by auto
qed

lemma CG_run_from_0:
  assumes "0 < goal" and "0 < max_iter"
  shows "CG_run goal max_iter w 0 count w' n \<longleftrightarrow>
     (count = int n \<and> w' = CG_iterations n w
      \<and> (global_residue w' \<le> goal \<or> global_residue w' = NaN \<or> count = max_iter)
      \<and> count \<le> max_iter
      \<and> (\<forall>j<n. goal < global_residue (CG_iterations j w)))"
proof (cases "count = int n")
  case False
  then show ?thesis by (simp add: CG_run_def)
next
  case True
  let ?Q = "\<lambda>j. goal < global_residue (CG_iterations j w)"
  have a: "(\<forall>j<n. global_residue (CG_iterations j w) > goal \<and> 0 + int j < max_iter)
      \<longleftrightarrow> (\<forall>j<n. ?Q j \<and> int j < max_iter)"
    by auto
  have g: "\<not> goal < r \<longleftrightarrow> r \<le> goal \<or> r = NaN" for r
    by (rule not_less_double [OF positive_not_NaN [OF assms(1)]])
  have "CG_run goal max_iter w 0 count w' n \<longleftrightarrow>
      CG_iterations n w = w'
      \<and> (\<not> (goal < global_residue w' \<and> int n < max_iter) \<and> (\<forall>j<n. ?Q j \<and> int j < max_iter))"
    unfolding CG_run_def a True by simp
  also have "\<dots> \<longleftrightarrow> CG_iterations n w = w'
      \<and> ((\<not> goal < global_residue w' \<or> int n = max_iter) \<and> int n \<le> max_iter \<and> (\<forall>j<n. ?Q j))"
    by (simp only: run_bounds [OF assms(2)])
  finally show ?thesis
    unfolding g using True by blast
qed

lemma SOR_run_from_0:
  assumes "0 < goal" and "0 < max_iter"
  shows "SOR_run goal max_iter (w, 2 * goal) 0 count s' n \<longleftrightarrow>
     (0 < n \<and> count = int n \<and> SOR_iterations n (w, 2 * goal) = s'
      \<and> (snd s' \<le> goal \<or> count = max_iter) \<and> count \<le> max_iter
      \<and> (\<forall>j<n. goal < snd (SOR_iterations j (w, 2 * goal))))"
proof (cases "count = int n")
  case False
  then show ?thesis by (simp add: SOR_run_def)
next
  case True
  let ?Q = "\<lambda>j. goal < snd (SOR_iterations j (w, 2 * goal))"
  have a: "(\<forall>j<n. snd (SOR_iterations j (w, 2 * goal)) > goal \<and> 0 + int j < max_iter)
      \<longleftrightarrow> (\<forall>j<n. ?Q j \<and> int j < max_iter)"
    by auto
  have "SOR_run goal max_iter (w, 2 * goal) 0 count s' n \<longleftrightarrow>
      SOR_iterations n (w, 2 * goal) = s'
      \<and> (\<not> (goal < snd s' \<and> int n < max_iter) \<and> (\<forall>j<n. ?Q j \<and> int j < max_iter))"
    unfolding SOR_run_def a True by simp
  also have "\<dots> \<longleftrightarrow> SOR_iterations n (w, 2 * goal) = s'
      \<and> ((\<not> goal < snd s' \<or> int n = max_iter) \<and> int n \<le> max_iter \<and> (\<forall>j<n. ?Q j))"
    by (simp only: run_bounds [OF assms(2)])
  finally have b: "SOR_run goal max_iter (w, 2 * goal) 0 count s' n \<longleftrightarrow>
      (count = int n \<and> SOR_iterations n (w, 2 * goal) = s'
      \<and> (snd s' \<le> goal \<or> count = max_iter) \<and> count \<le> max_iter \<and> (\<forall>j<n. ?Q j))"
    unfolding not_less using True by blast
  have "0 < n" if "SOR_iterations n (w, 2 * goal) = s'" "snd s' \<le> goal \<or> count = max_iter"
  proof (cases n)
    case 0
    with that True assms show ?thesis by auto
  qed simp
  with b show ?thesis by blast
qed

text \<open>Without sources, \<open>Setup_Grid\<close> leaves the field at 0 everywhere.\<close>

lemma Setup_zero_field:
  "zero_field (tiles (Setup P_grid gridsize [] heap) c)"
  by (simp add: zero_field_def Setup_def Setup_Grid_def)

section \<open>The example runs, evaluated\<close>

lemmas setup_defs = Setup_def Setup_Grid_def put_source_def dim_of_def offset_of_def
  upper_offset_of_def int32_def c_div_def c_trunc_def idx_def

lemma one_source_grid:
  "P_grid_x one_source = 1 \<and> P_grid_y one_source = 1 \<and> global_residue one_source = 0"
  by (simp add: one_source_def Setup_def)

lemma one_source_tile:
  "tiles one_source (0, 0) =
     \<lparr>dim_x = 4, dim_y = 3, offset_x = 0, offset_y = 0,
      phi = (\<lambda>a. 0)(4 := 4), source = (\<lambda>a. 0)(4 := 1),
      pCG = (\<lambda>a. 0), rCG = (\<lambda>a. 0), vCG = (\<lambda>a. 0)\<rparr>"
  by (simp add: one_source_def setup_defs)

lemma cells_4x3:
  "dim_x t = 4 \<Longrightarrow> dim_y t = 3 \<Longrightarrow> interior_cells t = [(1, 1), (2, 1)]"
  by (simp add: interior_cells_def upto_rec1)

lemma procs_single: "P_grid_x w = 1 \<Longrightarrow> P_grid_y w = 1 \<Longrightarrow> procs w = [(0, 0)]"
  by (simp add: procs_def)

text \<open>With \<open>CG\<close>: the first iteration of the run with one source, kernel by kernel.\<close>

lemma one_source_InitCG_local:
  "InitCG_local (tiles one_source (0, 0)) =
     (\<lparr>dim_x = 4, dim_y = 3, offset_x = 0, offset_y = 0,
       phi = (\<lambda>a. Fin 0)(4 := Fin 4), source = (\<lambda>a. 0)(4 := 1),
       pCG = (\<lambda>a. Fin 0)(4 := Fin 0, 7 := Fin 1), rCG = (\<lambda>a. Fin 0)(4 := Fin 0, 7 := Fin 1),
       vCG = (\<lambda>a. Fin 0)\<rparr>, Fin 1)"
  by (simp add: InitCG_local_def one_source_tile cells_4x3 InitCG_cell_def idx_def Let_def
      double_eval)

lemma one_source_calc_v:
  "calc_v (fst (InitCG_local (tiles one_source (0, 0)))) =
     \<lparr>dim_x = 4, dim_y = 3, offset_x = 0, offset_y = 0,
       phi = (\<lambda>a. Fin 0)(4 := Fin 4), source = (\<lambda>a. 0)(4 := 1),
       pCG = (\<lambda>a. Fin 0)(4 := Fin 0, 7 := Fin 1), rCG = (\<lambda>a. Fin 0)(4 := Fin 0, 7 := Fin 1),
       vCG = (\<lambda>a. Fin 0)(4 := Fin 0, 7 := Fin 1)\<rparr>"
  by (simp add: one_source_InitCG_local calc_v_def cells_4x3 calc_v_cell_def idx_def Let_def
      double_eval)

lemma one_source_pdotv:
  "calc_pdotv (calc_v (fst (InitCG_local (tiles one_source (0, 0))))) = Fin 1"
  by (simp add: one_source_calc_v calc_pdotv_def cells_4x3 idx_def double_eval)

lemma one_source_update_r:
  "update_r (Fin 1) (update_phi (Fin 1) (calc_v (fst (InitCG_local (tiles one_source (0, 0)))))) =
     \<lparr>dim_x = 4, dim_y = 3, offset_x = 0, offset_y = 0,
       phi = (\<lambda>a. Fin 0)(4 := Fin 4, 7 := Fin 1), source = (\<lambda>a. 0)(4 := 1),
       pCG = (\<lambda>a. Fin 0)(4 := Fin 0, 7 := Fin 1), rCG = (\<lambda>a. Fin 0)(4 := Fin 0, 7 := Fin 0),
       vCG = (\<lambda>a. Fin 0)(4 := Fin 0, 7 := Fin 1)\<rparr>"
  by (simp add: one_source_calc_v update_phi_def update_r_def cells_4x3 idx_def double_eval)

lemma one_source_rdotr:
  "calc_rdotr (update_r (Fin 1) (update_phi (Fin 1)
     (calc_v (fst (InitCG_local (tiles one_source (0, 0))))))) = Fin 0"
  by (simp add: one_source_update_r calc_rdotr_def cells_4x3 idx_def double_eval)


lemma MPI_Sendrecv_no_message:
  assumes "\<And>c s. src c = Some s \<Longrightarrow> dest s \<noteq> Some c"
  shows "MPI_Sendrecv get upd sendbuf sendtype dest recvbuf recvtype src w = w"
proof -
  have "(\<lambda>c. let t = tiles w c in
        case src c of
          None \<Rightarrow> t
        | Some s \<Rightarrow>
            if dest s = Some c
            then let msg = gather (get (tiles w s)) (sendbuf (tiles w s)) (sendtype (tiles w s))
                 in upd (scatter (recvbuf t) (recvtype t) msg) t
            else t) = tiles w"
    using assms by (auto simp: fun_eq_iff Let_def split: option.splits)
  then show ?thesis
    by (simp add: MPI_Sendrecv_def)
qed

lemma Exchange_Borders_single:
  assumes "P_grid_x w = 1" and "P_grid_y w = 1"
  shows "Exchange_Borders get upd w = w"
proof -
  have 1: "\<And>c s. proc_bottom w c = Some s \<Longrightarrow> proc_top w s \<noteq> Some c"
    using assms by (auto simp: proc_bottom_def proc_top_def split: if_splits)
  have 2: "\<And>c s. proc_top w c = Some s \<Longrightarrow> proc_bottom w s \<noteq> Some c"
    using assms by (auto simp: proc_bottom_def proc_top_def split: if_splits)
  have 3: "\<And>c s. proc_right w c = Some s \<Longrightarrow> proc_left w s \<noteq> Some c"
    using assms by (auto simp: proc_right_def proc_left_def split: if_splits)
  have 4: "\<And>c s. proc_left w c = Some s \<Longrightarrow> proc_right w s \<noteq> Some c"
    using assms by (auto simp: proc_right_def proc_left_def split: if_splits)
  show ?thesis
    by (simp add: Exchange_Borders_def traffic_top_def traffic_bottom_def traffic_left_def
        traffic_right_def Let_def MPI_Sendrecv_no_message 1 2 3 4)
qed

lemma InitCG_grid: "P_grid_x (InitCG w) = P_grid_x w \<and> P_grid_y (InitCG w) = P_grid_y w"
  by (simp add: InitCG_def map_tiles_def Let_def)

lemma InitCG_tiles: "tiles (InitCG w) c = fst (InitCG_local (tiles w c))"
  by (simp add: InitCG_def map_tiles_def Let_def)

lemma InitCG_residue_single:
  "P_grid_x w = 1 \<Longrightarrow> P_grid_y w = 1 \<Longrightarrow>
   global_residue (InitCG w) = snd (InitCG_local (tiles w (0, 0)))"
  by (simp add: InitCG_def map_tiles_def Let_def Allreduce_SUM_def procs_single)

lemma one_source_residue: "global_residue (InitCG one_source) = Fin 1"
  by (simp add: InitCG_residue_single one_source_grid one_source_InitCG_local)

lemma one_source_exchange: "Exchange_Borders_CG (InitCG one_source) = InitCG one_source"
  by (simp add: Exchange_Borders_CG_def Exchange_Borders_single InitCG_grid one_source_grid)

lemma one_source_global_pdotv':
  "Allreduce_SUM (map_tiles calc_v (InitCG one_source)) calc_pdotv = Fin 1"
  by (simp add: Allreduce_SUM_def procs_def map_tiles_def InitCG_grid one_source_grid
      InitCG_tiles one_source_pdotv)

lemma one_source_step:
  "global_residue (Do_Step_CG (Exchange_Borders_CG (InitCG one_source))) = Fin 0
   \<and> phi (tiles (Do_Step_CG (Exchange_Borders_CG (InitCG one_source))) (0, 0))
       = (\<lambda>a. Fin 0)(4 := Fin 4, 7 := Fin 1)"
  unfolding one_source_exchange Do_Step_CG_def
  by (simp add: Let_def Allreduce_SUM_def procs_def map_tiles_def InitCG_grid one_source_grid
      InitCG_tiles one_source_pdotv one_source_residue one_source_update_r
      calc_rdotr_def update_p_def cells_4x3 idx_def double_eval)

text \<open>
  The run \<open>stale_heap\<close>: \<open>pCG[3][1]\<close>, element 10, lies on the border at an edge of the
  domain, where no statement of the program sets it; it holds the 4 that the memory
  held. \<open>InitCG\<close> gives \<open>global_residue = 1\<close>. In the first iteration
  \<open>v[2][1] = 1 - (4 + 0 + 0 + 0) * 0.25 = 0\<close> and \<open>v[1][1] = p[1][1] = 0\<close>, so
  \<open>global_pdotv = 0\<close> and \<open>a = 1 / 0\<close>, the positive infinity. Then \<open>phi[1][1]\<close>, the
  source, becomes \<open>4 + inf * 0\<close>, which is NaN, \<open>phi[2][1]\<close> becomes \<open>0 + inf * 1\<close>, both
  elements of \<open>rCG\<close> become NaN, and so does \<open>global_residue\<close>.
\<close>

lemma stale_heap_grid:
  "P_grid_x stale_heap = 1 \<and> P_grid_y stale_heap = 1 \<and> global_residue stale_heap = 0"
  by (simp add: stale_heap_def Setup_def)

lemma stale_heap_tile:
  "tiles stale_heap (0, 0) =
     \<lparr>dim_x = 4, dim_y = 3, offset_x = 0, offset_y = 0,
      phi = (\<lambda>a. 0)(4 := 4), source = (\<lambda>a. 0)(4 := 1),
      pCG = (\<lambda>a. if a = 10 then 4 else 0), rCG = (\<lambda>a. if a = 10 then 4 else 0),
      vCG = (\<lambda>a. if a = 10 then 4 else 0)\<rparr>"
  by (simp add: stale_heap_def setup_defs)

lemma stale_heap_InitCG_local:
  "InitCG_local (tiles stale_heap (0, 0)) =
     (\<lparr>dim_x = 4, dim_y = 3, offset_x = 0, offset_y = 0,
       phi = (\<lambda>a. Fin 0)(4 := Fin 4), source = (\<lambda>a. 0)(4 := 1),
       pCG = (\<lambda>a. if a = 10 then Fin 4 else Fin 0)(4 := Fin 0, 7 := Fin 1),
       rCG = (\<lambda>a. if a = 10 then Fin 4 else Fin 0)(4 := Fin 0, 7 := Fin 1),
       vCG = (\<lambda>a. if a = 10 then Fin 4 else Fin 0)\<rparr>, Fin 1)"
  by (simp add: InitCG_local_def stale_heap_tile cells_4x3 InitCG_cell_def idx_def Let_def
      double_eval cong: if_cong)

lemma stale_heap_calc_v:
  "calc_v (fst (InitCG_local (tiles stale_heap (0, 0)))) =
     \<lparr>dim_x = 4, dim_y = 3, offset_x = 0, offset_y = 0,
       phi = (\<lambda>a. Fin 0)(4 := Fin 4), source = (\<lambda>a. 0)(4 := 1),
       pCG = (\<lambda>a. if a = 10 then Fin 4 else Fin 0)(4 := Fin 0, 7 := Fin 1),
       rCG = (\<lambda>a. if a = 10 then Fin 4 else Fin 0)(4 := Fin 0, 7 := Fin 1),
       vCG = (\<lambda>a. if a = 10 then Fin 4 else Fin 0)(4 := Fin 0, 7 := Fin 0)\<rparr>"
  by (simp add: stale_heap_InitCG_local calc_v_def cells_4x3 calc_v_cell_def idx_def Let_def
      double_eval)

lemma stale_heap_pdotv:
  "calc_pdotv (calc_v (fst (InitCG_local (tiles stale_heap (0, 0))))) = Fin 0"
  by (simp add: stale_heap_calc_v calc_pdotv_def cells_4x3 idx_def double_eval)

lemma stale_heap_update_r:
  "update_r PInf (update_phi PInf (calc_v (fst (InitCG_local (tiles stale_heap (0, 0)))))) =
     \<lparr>dim_x = 4, dim_y = 3, offset_x = 0, offset_y = 0,
       phi = (\<lambda>a. Fin 0)(4 := NaN, 7 := PInf), source = (\<lambda>a. 0)(4 := 1),
       pCG = (\<lambda>a. if a = 10 then Fin 4 else Fin 0)(4 := Fin 0, 7 := Fin 1),
       rCG = (\<lambda>a. if a = 10 then Fin 4 else Fin 0)(4 := NaN, 7 := NaN),
       vCG = (\<lambda>a. if a = 10 then Fin 4 else Fin 0)(4 := Fin 0, 7 := Fin 0)\<rparr>"
  by (simp add: stale_heap_calc_v update_phi_def update_r_def cells_4x3 idx_def double_eval)

lemma stale_heap_rdotr:
  "calc_rdotr (update_r PInf (update_phi PInf
     (calc_v (fst (InitCG_local (tiles stale_heap (0, 0))))))) = NaN"
  by (simp add: stale_heap_update_r calc_rdotr_def cells_4x3 idx_def double_eval)

lemma stale_heap_residue: "global_residue (InitCG stale_heap) = Fin 1"
  by (simp add: InitCG_residue_single stale_heap_grid stale_heap_InitCG_local)

lemma stale_heap_exchange: "Exchange_Borders_CG (InitCG stale_heap) = InitCG stale_heap"
  by (simp add: Exchange_Borders_CG_def Exchange_Borders_single InitCG_grid stale_heap_grid)

lemma stale_heap_global_pdotv:
  "Allreduce_SUM (map_tiles calc_v (InitCG stale_heap)) calc_pdotv = 0"
  by (simp add: Allreduce_SUM_def procs_def map_tiles_def InitCG_grid stale_heap_grid
      InitCG_tiles stale_heap_pdotv zero_double_def)

lemma stale_heap_step:
  "global_residue (Do_Step_CG (Exchange_Borders_CG (InitCG stale_heap))) = NaN
   \<and> phi (tiles (Do_Step_CG (Exchange_Borders_CG (InitCG stale_heap))) (0, 0))
       = (\<lambda>a. Fin 0)(4 := NaN, 7 := PInf)"
  unfolding stale_heap_exchange Do_Step_CG_def
  by (simp add: Let_def Allreduce_SUM_def procs_def map_tiles_def InitCG_grid stale_heap_grid
      InitCG_tiles stale_heap_pdotv stale_heap_residue stale_heap_update_r
      calc_rdotr_def update_p_def cells_4x3 idx_def double_eval)

text \<open>
  The run \<open>no_source\<close>: the field of zeros gives \<open>global_residue = 0\<close> and
  \<open>global_pdotv = 0\<close>; an iteration from there computes \<open>a = 0 / 0\<close>, which is NaN.
\<close>

lemma no_source_grid:
  "P_grid_x no_source = 1 \<and> P_grid_y no_source = 1 \<and> global_residue no_source = 0"
  by (simp add: no_source_def Setup_def)

lemma no_source_tile:
  "tiles no_source (0, 0) =
     \<lparr>dim_x = 4, dim_y = 3, offset_x = 0, offset_y = 0,
      phi = (\<lambda>a. 0), source = (\<lambda>a. 0),
      pCG = (\<lambda>a. 0), rCG = (\<lambda>a. 0), vCG = (\<lambda>a. 0)\<rparr>"
  by (simp add: no_source_def setup_defs)

lemma no_source_zero_field: "zero_field (tiles no_source (0, 0))"
  by (simp add: zero_field_def no_source_tile)

lemma no_source_InitCG_local:
  "InitCG_local (tiles no_source (0, 0)) =
     (\<lparr>dim_x = 4, dim_y = 3, offset_x = 0, offset_y = 0,
       phi = (\<lambda>a. Fin 0), source = (\<lambda>a. 0),
       pCG = (\<lambda>a. Fin 0)(4 := Fin 0, 7 := Fin 0), rCG = (\<lambda>a. Fin 0)(4 := Fin 0, 7 := Fin 0),
       vCG = (\<lambda>a. Fin 0)\<rparr>, Fin 0)"
  by (simp add: InitCG_local_def no_source_tile cells_4x3 InitCG_cell_def idx_def Let_def
      double_eval)

lemma no_source_calc_v:
  "calc_v (fst (InitCG_local (tiles no_source (0, 0)))) =
     \<lparr>dim_x = 4, dim_y = 3, offset_x = 0, offset_y = 0,
       phi = (\<lambda>a. Fin 0), source = (\<lambda>a. 0),
       pCG = (\<lambda>a. Fin 0)(4 := Fin 0, 7 := Fin 0), rCG = (\<lambda>a. Fin 0)(4 := Fin 0, 7 := Fin 0),
       vCG = (\<lambda>a. Fin 0)(4 := Fin 0, 7 := Fin 0)\<rparr>"
  by (simp add: no_source_InitCG_local calc_v_def cells_4x3 calc_v_cell_def idx_def Let_def
      double_eval)

lemma no_source_pdotv:
  "calc_pdotv (calc_v (fst (InitCG_local (tiles no_source (0, 0))))) = Fin 0"
  by (simp add: no_source_calc_v calc_pdotv_def cells_4x3 idx_def double_eval)

lemma no_source_update_r:
  "update_r NaN (update_phi NaN (calc_v (fst (InitCG_local (tiles no_source (0, 0)))))) =
     \<lparr>dim_x = 4, dim_y = 3, offset_x = 0, offset_y = 0,
       phi = (\<lambda>a. Fin 0)(4 := NaN, 7 := NaN), source = (\<lambda>a. 0),
       pCG = (\<lambda>a. Fin 0)(4 := Fin 0, 7 := Fin 0), rCG = (\<lambda>a. Fin 0)(4 := NaN, 7 := NaN),
       vCG = (\<lambda>a. Fin 0)(4 := Fin 0, 7 := Fin 0)\<rparr>"
  by (simp add: no_source_calc_v update_phi_def update_r_def cells_4x3 idx_def double_eval)

lemma no_source_residue: "global_residue (InitCG no_source) = 0"
  by (simp add: InitCG_residue_single no_source_grid no_source_InitCG_local zero_double_def)

lemma no_source_global_pdotv:
  "Allreduce_SUM (map_tiles calc_v (InitCG no_source)) calc_pdotv = 0"
  by (simp add: Allreduce_SUM_def procs_def map_tiles_def InitCG_grid no_source_grid
      InitCG_tiles no_source_pdotv zero_double_def)

lemma no_source_exchange: "Exchange_Borders_CG (InitCG no_source) = InitCG no_source"
  by (simp add: Exchange_Borders_CG_def Exchange_Borders_single InitCG_grid no_source_grid)

lemma no_source_step:
  "global_residue (Do_Step_CG (Exchange_Borders_CG (InitCG no_source))) = NaN
   \<and> pCG (tiles (Do_Step_CG (Exchange_Borders_CG (InitCG no_source))) (0, 0))
       = (\<lambda>a. Fin 0)(4 := NaN, 7 := NaN)"
  unfolding no_source_exchange Do_Step_CG_def
  by (simp add: Let_def Allreduce_SUM_def procs_def map_tiles_def InitCG_grid no_source_grid
      InitCG_tiles no_source_pdotv no_source_residue no_source_update_r
      calc_rdotr_def update_p_def cells_4x3 idx_def double_eval)

text \<open>\<open>Solve\<close> on these two runs: one iteration, after which the test of the loop fails.\<close>

lemma stale_heap_Solve:
  "Solve_CG (Fin (1 / 10000)) 10 stale_heap
     = (1, Do_Step_CG (Exchange_Borders_CG (InitCG stale_heap)))"
proof -
  have "\<not> (Fin (1 / 10000) < global_residue (Do_Step_CG (Exchange_Borders_CG (InitCG stale_heap)))
      \<and> (1::int) < 10)"
    using stale_heap_step by simp
  then show ?thesis
    unfolding Solve_CG_def
    by (subst Solve_CG_loop.simps) (simp add: stale_heap_residue Solve_CG_loop_stop)
qed

lemma no_source_Solve:
  "Solve_CG (Fin (- 1)) 10 no_source
     = (1, Do_Step_CG (Exchange_Borders_CG (InitCG no_source)))"
proof -
  have "\<not> (Fin (- 1) < global_residue (Do_Step_CG (Exchange_Borders_CG (InitCG no_source)))
      \<and> (1::int) < 10)"
    using no_source_step by simp
  then show ?thesis
    unfolding Solve_CG_def
    by (subst Solve_CG_loop.simps) (simp add: no_source_residue Solve_CG_loop_stop zero_double_def)
qed

section \<open>The border types (claim C6)\<close>

text \<open>
  Claim C6, as the code supports it. The type used for the exchanges with the top and
  bottom neighbours, \<open>border_type[Y_DIR]\<close>, covers \<open>dim[X_DIR] - 2\<close> elements (the interior
  width) at stride \<open>dim[Y_DIR]\<close>: from \<open>&a[1][y]\<close> it is the cell \<open>a[x][y]\<close> of every interior
  \<open>x\<close>. The type used for the exchanges with the left and right neighbours,
  \<open>border_type[X_DIR]\<close>, covers \<open>dim[Y_DIR] - 2\<close> elements (the interior height) at stride 1:
  from \<open>&a[x][1]\<close> it is the cell \<open>a[x][y]\<close> of every interior \<open>y\<close>.
\<close>

theorem border_types:
  "Setup_MPI_Datatypes t Y_DIR = \<lparr>type_count = dim_x t - 2, type_blocklength = 1, type_stride = dim_y t\<rparr>
   \<and> Setup_MPI_Datatypes t X_DIR = \<lparr>type_count = dim_y t - 2, type_blocklength = 1, type_stride = 1\<rparr>
   \<and> gather buf (idx t 1 y) (Setup_MPI_Datatypes t Y_DIR) = map (\<lambda>x. buf (idx t x y)) [1..dim_x t - 2]
   \<and> gather buf (idx t x 1) (Setup_MPI_Datatypes t X_DIR) = map (\<lambda>y. buf (idx t x y)) [1..dim_y t - 2]"
  by (simp add: gather_Y gather_X) (simp add: Setup_MPI_Datatypes_def)

text \<open>
  Claim C6 as stated (top and bottom: interior height at stride 1; left and right:
  interior width at stride \<open>dim_y\<close>) fails on the grid of 2 by 1 cells, where the
  interior width is 2, the interior height is 1 and \<open>dim_y\<close> is 3.
\<close>

theorem border_types_counterexample:
  "dim_x (tiles (no_source :: real world) (0, 0)) - 2 = 2
   \<and> dim_y (tiles (no_source :: real world) (0, 0)) - 2 = 1
   \<and> dim_y (tiles (no_source :: real world) (0, 0)) = 3
   \<and> type_count (Setup_MPI_Datatypes (tiles (no_source :: real world) (0, 0)) Y_DIR) = 2
   \<and> type_stride (Setup_MPI_Datatypes (tiles (no_source :: real world) (0, 0)) Y_DIR) = 3
   \<and> type_count (Setup_MPI_Datatypes (tiles (no_source :: real world) (0, 0)) X_DIR) = 1
   \<and> type_stride (Setup_MPI_Datatypes (tiles (no_source :: real world) (0, 0)) X_DIR) = 1"
  by (simp add: no_source_tile Setup_MPI_Datatypes_def)

section \<open>The trivial case of the conjugate gradient method (claim C8)\<close>

text \<open>
  Claim C8. On one process whose field is 0 everywhere, \<open>InitCG\<close> yields
  \<open>global_residue = 0\<close>, and for every \<open>precision_goal > 0\<close> the loop of \<open>Solve\<close> is not
  entered: the count reported is 0 and the state is the one \<open>InitCG\<close> left. No cell of
  such a field needs to be free of the source mark for this, and the run that \<open>Setup\<close>
  prepares from an empty list of sources has such a field (\<open>Setup_zero_field\<close>).
\<close>

theorem CG_trivial_case:
  assumes "P_grid_x w = 1" and "P_grid_y w = 1"
    and "zero_field (tiles w (0, 0))"
    and "0 < precision_goal"
  shows "global_residue (InitCG w) = 0
     \<and> Solve_CG precision_goal max_iter w = (0, InitCG w)"
proof -
  have p: "procs w = [(0, 0)]"
    using assms(1,2) by (simp add: procs_def)
  have r: "global_residue (InitCG w) = 0"
    using InitCG_local_zero [OF assms(3)]
    by (simp add: InitCG_def Let_def map_tiles_def Allreduce_SUM_def p)
  show ?thesis
    using r not_less_zero_double [OF assms(4)] by (simp add: Solve_CG_def Solve_CG_loop_stop)
qed

theorem CG_trivial_case_witness:
  "P_grid_x (no_source :: double world) = 1 \<and> P_grid_y (no_source :: double world) = 1
   \<and> zero_field (tiles (no_source :: double world) (0, 0))
   \<and> 0 < Fin (1 / 10000)
   \<and> global_residue (InitCG no_source) = 0
   \<and> Solve_CG (Fin (1 / 10000)) 10 no_source = (0, InitCG no_source)"
  using CG_trivial_case [of no_source "Fin (1 / 10000)" 10]
  by (simp add: no_source_grid no_source_zero_field zero_double_def)

section \<open>No iteration allowed (claim C9)\<close>

lemma Solve_SOR_loop_stop:
  "\<not> (global_delta > precision_goal \<and> count < max_iter)
   \<Longrightarrow> Solve_SOR_loop precision_goal max_iter w global_delta count = (count, w, global_delta)"
  by (subst Solve_SOR_loop.simps) auto

text \<open>
  Claim C9. With \<open>max_iter = 0\<close> the loop of \<open>Solve\<close> is not entered, with or without
  \<open>CG\<close>: the count reported is 0. Without \<open>CG\<close> the state \<open>v\<close> is untouched; with \<open>CG\<close>
  the state \<open>w\<close> becomes the state \<open>InitCG\<close> leaves, whose \<open>phi\<close> is the initial \<open>phi\<close> on
  every process.
\<close>

theorem max_iter_zero:
  "Solve_CG precision_goal 0 w = (0, InitCG w)
   \<and> phi (tiles (InitCG w) c) = phi (tiles w c)
   \<and> Solve_SOR goal 0 v = (0, v, 2 * goal)"
  by (simp add: Solve_CG_def Solve_SOR_def InitCG_phi Solve_CG_loop_stop Solve_SOR_loop_stop)

section \<open>The sweep of successive over-relaxation (claim C2)\<close>

lemma idx_inj:
  assumes "0 \<le> y" "y < dim_y t" "0 \<le> y'" "y' < dim_y t"
  shows "idx t x y = idx t x' y' \<longleftrightarrow> x = x' \<and> y = y'"
proof
  assume e: "idx t x y = idx t x' y'"
  have d: "dim_y t \<noteq> 0" using assms by auto
  have "(y + x * dim_y t) div dim_y t = x" "(y' + x' * dim_y t) div dim_y t = x'"
    using assms d by (simp_all add: div_pos_pos_trivial)
  then have "x = x'" using e by (simp add: idx_def add.commute)
  then show "x = x' \<and> y = y'" using e by (simp add: idx_def)
qed simp

lemma interior_cells_product:
  "interior_cells t = List.product [1..dim_x t - 2] [1..dim_y t - 2]"
  by (simp add: interior_cells_def product_concat_map)

lemma distinct_interior_cells: "distinct (interior_cells t)"
  by (simp add: interior_cells_product distinct_product)

lemma idx_inj_interior:
  assumes "(x, y) \<in> set (interior_cells t)" "(x', y') \<in> set (interior_cells t)"
  shows "idx t x y = idx t x' y' \<longleftrightarrow> x = x' \<and> y = y'"
  using assms by (intro idx_inj) (auto simp: interior_cells_iff)


lemma tile_phi_frame:
  "t1 = t\<lparr>phi := b\<rparr> \<Longrightarrow> idx t1 = idx t \<and> source t1 = source t \<and> dim_x t1 = dim_x t
     \<and> dim_y t1 = dim_y t \<and> offset_x t1 = offset_x t \<and> offset_y t1 = offset_y t
     \<and> interior_cells t1 = interior_cells t"
  by (simp add: idx_def fun_eq_iff interior_cells_def)

lemma Do_Step_cell_eq:
  assumes f: "t1 = t\<lparr>phi := phi t1\<rparr>" and n: "0 \<le> x + y + po"
  shows "Do_Step_cell parity po x y (t1, m1) =
     (if (x + y + po) mod 2 = parity \<and> source t (idx t x y) \<noteq> 1
      then (t\<lparr>phi := (phi t1)(idx t x y :=
                 phi t1 (idx t x y)
                 + 1.95 * (0.25 * neighbours t (phi t1) (x, y) - phi t1 (idx t x y)))\<rparr>,
            max m1 \<bar>phi t1 (idx t x y) - (phi t1 (idx t x y)
                 + 1.95 * (0.25 * neighbours t (phi t1) (x, y) - phi t1 (idx t x y)))\<bar>)
      else (t1, m1))"
proof -
  have i: "idx t1 = idx t" "source t1 = source t"
    using tile_phi_frame [OF f] by simp_all
  have r: "c_rem (x + y + po) 2 = (x + y + po) mod 2"
    using n by (simp add: c_rem_nonneg)
  have u: "\<And>v. t1\<lparr>phi := v\<rparr> = t\<lparr>phi := v\<rparr>"
    by (subst f) simp
  have j: "\<And>v. idx (t\<lparr>phi := v\<rparr>) = idx t"
    by (simp add: idx_def fun_eq_iff)
  show ?thesis
    unfolding Do_Step_cell_def
    by (simp add: i r u j Let_def neighbours_def max_def)
qed


lemma parity_neighbour:
  fixes a :: int
  shows "(a + 1) mod 2 \<noteq> a mod 2" and "(a - 1) mod 2 \<noteq> a mod 2"
  by presburger+

lemma updated_iff:
  "updated parity t (x, y) \<longleftrightarrow>
     (x + y + (offset_x t + offset_y t)) mod 2 = parity \<and> source t (idx t x y) \<noteq> 1"
  by (simp add: updated_def add.assoc)

lemma updated_neighbour:
  assumes "updated parity t (x, y)"
  shows "\<not> updated parity t (x + 1, y)" and "\<not> updated parity t (x - 1, y)"
    and "\<not> updated parity t (x, y + 1)" and "\<not> updated parity t (x, y - 1)"
proof -
  let ?a = "x + y + offset_x t + offset_y t"
  have e: "x + 1 + y + offset_x t + offset_y t = ?a + 1"
    "x - 1 + y + offset_x t + offset_y t = ?a - 1"
    "x + (y + 1) + offset_x t + offset_y t = ?a + 1"
    "x + (y - 1) + offset_x t + offset_y t = ?a - 1"
    by simp_all
  have p: "?a mod 2 = parity" using assms by (simp add: updated_def)
  show "\<not> updated parity t (x + 1, y)" "\<not> updated parity t (x - 1, y)"
    "\<not> updated parity t (x, y + 1)" "\<not> updated parity t (x, y - 1)"
    unfolding updated_def prod.case e using parity_neighbour [of ?a] p by simp_all
qed

lemma Do_Step_prefix:
  assumes po: "0 \<le> offset_x t + offset_y t"
  shows "distinct cs \<Longrightarrow> set cs \<subseteq> set (interior_cells t) \<Longrightarrow>
    (case fold (\<lambda>(x, y). Do_Step_cell parity (offset_x t + offset_y t) x y) cs (t, 0) of
      (t', max_err) \<Rightarrow>
        t' = t\<lparr>phi := phi t'\<rparr>
        \<and> (\<forall>c\<in>set cs. updated parity t c \<longrightarrow> phi t' (idx t (fst c) (snd c)) = relaxed t c)
        \<and> (\<forall>a. a \<notin> (\<lambda>c. idx t (fst c) (snd c)) ` {c \<in> set cs. updated parity t c}
               \<longrightarrow> phi t' a = phi t a)
        \<and> max_err = Max (insert 0 ((\<lambda>c. \<bar>phi t (idx t (fst c) (snd c)) - relaxed t c\<bar>)
                                      ` {c \<in> set cs. updated parity t c})))"
proof (induction cs rule: rev_induct)
  case Nil
  show ?case by simp
next
  case (snoc c cs)
  let ?F = "\<lambda>(x, y). Do_Step_cell parity (offset_x t + offset_y t) x y"
  let ?g = "\<lambda>c. \<bar>phi t (idx t (fst c) (snd c)) - relaxed t c\<bar>"
  let ?U = "{c \<in> set cs. updated parity t c}"
  obtain x y where c: "c = (x, y)" by (cases c)
  obtain t1 m1 where s: "fold ?F cs (t, 0) = (t1, m1)" by (cases "fold ?F cs (t, 0)")
  from snoc.prems have d: "distinct cs" and sub: "set cs \<subseteq> set (interior_cells t)"
    and cin: "(x, y) \<in> set (interior_cells t)" and cnot: "(x, y) \<notin> set cs"
    by (auto simp: c)
  from snoc.IH [OF d sub] s
  have f: "t1 = t\<lparr>phi := phi t1\<rparr>"
    and b: "\<forall>c\<in>set cs. updated parity t c \<longrightarrow> phi t1 (idx t (fst c) (snd c)) = relaxed t c"
    and k: "\<forall>a. a \<notin> (\<lambda>c. idx t (fst c) (snd c)) ` ?U \<longrightarrow> phi t1 a = phi t a"
    and m: "m1 = Max (insert 0 (?g ` ?U))"
    by simp_all
  from cin have r: "1 \<le> x" "x \<le> dim_x t - 2" "1 \<le> y" "y \<le> dim_y t - 2"
    by (simp_all add: interior_cells_iff)
  have n: "0 \<le> x + y + (offset_x t + offset_y t)" using r po by simp
  have step: "fold ?F (cs @ [c]) (t, 0) = Do_Step_cell parity (offset_x t + offset_y t) x y (t1, m1)"
    by (simp add: s c)
  note eq = Do_Step_cell_eq [OF f n, of parity m1, folded updated_iff]
  show ?case
  proof (cases "updated parity t (x, y)")
    case False
    then have "{ca \<in> set (cs @ [c]). updated parity t ca} = ?U"
      by (auto simp: c)
    moreover have "fold ?F (cs @ [c]) (t, 0) = (t1, m1)"
      unfolding step eq using False by simp
    ultimately show ?thesis
      using f b k m False by (simp add: c)
  next
    case True
    have inU: "\<And>u. u \<in> ?U \<Longrightarrow> 1 \<le> snd u \<and> snd u \<le> dim_y t - 2 \<and> u \<in> set cs"
      using sub by (auto simp: interior_cells_iff)
    have other: "idx t x' y' \<notin> (\<lambda>c. idx t (fst c) (snd c)) ` ?U"
      if "0 \<le> y'" "y' < dim_y t" "(x', y') \<notin> ?U" for x' y'
    proof
      assume "idx t x' y' \<in> (\<lambda>c. idx t (fst c) (snd c)) ` ?U"
      then obtain u where u: "u \<in> ?U" "idx t x' y' = idx t (fst u) (snd u)" by auto
      have "x' = fst u \<and> y' = snd u"
        using idx_inj [of y' t "snd u" x' "fst u"] that inU [OF u(1)] u(2) by simp
      then have "(x', y') = u" by simp
      with u(1) that(3) show False by simp
    qed
    have own: "idx t x y \<notin> (\<lambda>c. idx t (fst c) (snd c)) ` ?U"
      using other [of y x] r cnot by simp
    have nb: "idx t (x + 1) y \<notin> (\<lambda>c. idx t (fst c) (snd c)) ` ?U"
      "idx t (x - 1) y \<notin> (\<lambda>c. idx t (fst c) (snd c)) ` ?U"
      "idx t x (y + 1) \<notin> (\<lambda>c. idx t (fst c) (snd c)) ` ?U"
      "idx t x (y - 1) \<notin> (\<lambda>c. idx t (fst c) (snd c)) ` ?U"
      using other [of y "x + 1"] other [of y "x - 1"] other [of "y + 1" x] other [of "y - 1" x]
        r updated_neighbour [OF True]
      by simp_all
    have new: "phi t1 (idx t x y)
        + 1.95 * (0.25 * neighbours t (phi t1) (x, y) - phi t1 (idx t x y)) = relaxed t (x, y)"
      using own nb k by (simp add: relaxed_def neighbours_def)
    have old: "phi t1 (idx t x y) = phi t (idx t x y)"
      using own k by simp
    let ?t2 = "t\<lparr>phi := (phi t1)(idx t x y := relaxed t (x, y))\<rparr>"
    have res: "fold ?F (cs @ [c]) (t, 0) = (?t2, max m1 (?g (x, y)))"
      unfolding step eq new using True old by simp
    have U': "{ca \<in> set (cs @ [c]). updated parity t ca} = insert (x, y) ?U"
      using True by (auto simp: c)
    have b': "\<forall>c\<in>set cs. updated parity t c \<longrightarrow> phi ?t2 (idx t (fst c) (snd c)) = relaxed t c"
    proof (intro ballI impI)
      fix u assume u: "u \<in> set cs" "updated parity t u"
      then have "idx t (fst u) (snd u) \<in> (\<lambda>c. idx t (fst c) (snd c)) ` ?U" by auto
      with own have "idx t (fst u) (snd u) \<noteq> idx t x y" by metis
      with b u show "phi ?t2 (idx t (fst u) (snd u)) = relaxed t u" by simp
    qed
    have m': "max m1 (?g (x, y)) = Max (insert 0 (?g ` insert (x, y) ?U))"
    proof -
      have "?g ` insert (x, y) ?U = insert (?g (x, y)) (?g ` ?U)" by simp
      then have "insert 0 (?g ` insert (x, y) ?U) = insert (?g (x, y)) (insert 0 (?g ` ?U))"
        by auto
      moreover have "Max (insert (?g (x, y)) (insert 0 (?g ` ?U))) = max (?g (x, y)) (Max (insert 0 (?g ` ?U)))"
        by (rule Max_insert) auto
      ultimately show ?thesis by (simp add: m max.commute)
    qed
    show ?thesis
      unfolding res U' prod.case
      using b' k m' by (auto simp: c)
  qed
qed


text \<open>
  Claim C2. Let the offsets of the grid be non-negative, as global coordinates are.
  A sweep \<open>Do_Step parity\<close> changes nothing but \<open>phi\<close>. It gives every interior cell
  \<open>(x, y)\<close> whose \<open>x + y + offset_x + offset_y\<close> is congruent to \<open>parity\<close> modulo 2 and
  whose \<open>source\<close> mark is not set the value
  \<open>old + 1.95 * (0.25 * (sum of the four neighbours) - old)\<close>, all read before the sweep;
  it leaves every other element of \<open>phi\<close> as it was; and it returns the maximum of
  \<open>|old - new|\<close> over the cells it updated, 0 if there is none.
\<close>

theorem Do_Step_sweep:
  assumes "0 \<le> offset_x t + offset_y t"
  shows "fst (Do_Step parity t) = t\<lparr>phi := phi (fst (Do_Step parity t))\<rparr>
     \<and> (\<forall>x y. (x, y) \<in> set (interior_cells t) \<and> updated parity t (x, y)
            \<longrightarrow> phi (fst (Do_Step parity t)) (idx t x y) = relaxed t (x, y))
     \<and> (\<forall>a. a \<notin> (\<lambda>(x, y). idx t x y) ` {c \<in> set (interior_cells t). updated parity t c}
            \<longrightarrow> phi (fst (Do_Step parity t)) a = phi t a)
     \<and> snd (Do_Step parity t) =
         Max (insert 0 ((\<lambda>(x, y). \<bar>phi t (idx t x y) - relaxed t (x, y)\<bar>)
                          ` {c \<in> set (interior_cells t). updated parity t c}))"
proof -
  have e: "(\<lambda>(x, y). idx t x y) = (\<lambda>c. idx t (fst c) (snd c))"
    "(\<lambda>(x, y). \<bar>phi t (idx t x y) - relaxed t (x, y)\<bar>)
      = (\<lambda>c. \<bar>phi t (idx t (fst c) (snd c)) - relaxed t c\<bar>)"
    by (simp_all add: fun_eq_iff)
  show ?thesis
    using Do_Step_prefix [OF assms distinct_interior_cells subset_refl, of parity]
    unfolding e by (auto simp: Do_Step_def Let_def split: prod.splits)
qed

lemma one_source_cells:
  "set (interior_cells (tiles one_source (0, 0))) = {(1, 1), (2, 1)}"
  by (simp add: cells_4x3 one_source_tile)

lemma one_source_updated:
  "{c \<in> set (interior_cells (tiles one_source (0, 0))). updated 1 (tiles one_source (0, 0)) c}
     = {(2, 1)}"
  unfolding one_source_cells by (auto simp: updated_def one_source_tile idx_def)

text \<open>
  The theorem on the grid with one source, for the sweep of parity 1: the cell
  \<open>(2, 1)\<close>, element 7, gets \<open>1.95 * (0.25 * 4)\<close>; the source, element 4, stays.
\<close>

theorem Do_Step_sweep_witness:
  "0 \<le> offset_x (tiles (one_source :: real world) (0, 0))
         + offset_y (tiles (one_source :: real world) (0, 0))
   \<and> phi (fst (Do_Step 1 (tiles one_source (0, 0)))) 7 = 39 / 20
   \<and> phi (fst (Do_Step 1 (tiles one_source (0, 0)))) 4 = 4
   \<and> snd (Do_Step 1 (tiles one_source (0, 0))) = 39 / 20"
proof -
  let ?t = "tiles (one_source :: real world) (0, 0)"
  have h: "0 \<le> offset_x ?t + offset_y ?t"
    by (simp add: one_source_tile)
  note th = Do_Step_sweep [OF h, of 1, unfolded one_source_updated]
  have r: "relaxed ?t (2, 1) = 39 / 20" "idx ?t 2 1 = 7" "phi ?t 4 = 4" "phi ?t 7 = 0"
    by (simp_all add: relaxed_def neighbours_def one_source_tile idx_def)
  have u: "(2, 1) \<in> set (interior_cells ?t) \<and> updated 1 ?t (2, 1)"
    using one_source_updated by blast
  from th u have "phi (fst (Do_Step 1 ?t)) (idx ?t 2 1) = relaxed ?t (2, 1)"
    by blast
  moreover from th have "phi (fst (Do_Step 1 ?t)) 4 = phi ?t 4"
    by (simp add: r)
  moreover from th have "snd (Do_Step 1 ?t) = 39 / 20"
    by (simp add: r)
  ultimately show ?thesis
    using h r by simp
qed

section \<open>One iteration of the conjugate gradient method (claim C3)\<close>

lemma idx_update [simp]:
  "idx (phi_update f t) = idx t" "idx (pCG_update f t) = idx t"
  "idx (rCG_update f t) = idx t" "idx (vCG_update f t) = idx t"
  by (simp_all add: idx_def fun_eq_iff)

lemma interior_cells_update [simp]:
  "interior_cells (phi_update f t) = interior_cells t"
  "interior_cells (pCG_update f t) = interior_cells t"
  "interior_cells (rCG_update f t) = interior_cells t"
  "interior_cells (vCG_update f t) = interior_cells t"
  by (simp_all add: interior_cells_def)

lemma fold_assign_out:
  assumes "a \<notin> (\<lambda>(x, y). A x y) ` set cs"
  shows "fold (\<lambda>(x, y) b. b(A x y := H x y (b (A x y)))) cs b a = b a"
  using assms by (induction cs arbitrary: b) auto

lemma fold_assign_in:
  assumes "distinct cs" and "inj_on (\<lambda>(x, y). A x y) (set cs)" and "(x, y) \<in> set cs"
  shows "fold (\<lambda>(x, y) b. b(A x y := H x y (b (A x y)))) cs b (A x y) = H x y (b (A x y))"
  using assms
proof (induction cs arbitrary: b)
  case Nil
  then show ?case by simp
next
  case (Cons c cs)
  obtain x' y' where c: "c = (x', y')" by (cases c)
  show ?case
  proof (cases "(x, y) = c")
    case True
    then have "A x y \<notin> (\<lambda>(x, y). A x y) ` set cs"
      using Cons.prems(1,2) by (force simp: inj_on_def)
    then have "fold (\<lambda>(x, y) b. b(A x y := H x y (b (A x y)))) cs
        (b(A x y := H x y (b (A x y)))) (A x y) = (b(A x y := H x y (b (A x y)))) (A x y)"
      by (rule fold_assign_out)
    then show ?thesis
      using True [symmetric] by (simp add: c del: fun_upd_apply) simp
  next
    case False
    then have m: "(x, y) \<in> set cs" using Cons.prems(3) by simp
    have "A x y \<noteq> A x' y'"
      using Cons.prems(2,3) False c by (force simp: inj_on_def)
    with Cons.IH [of "b(A x' y' := H x' y' (b (A x' y')))"] Cons.prems m
    show ?thesis by (simp add: c del: fun_upd_apply) simp
  qed
qed

lemma inj_on_idx_interior: "inj_on (\<lambda>(x, y). idx t x y) (set (interior_cells t))"
  by (auto simp: inj_on_def idx_inj_interior)

lemma update_phi_fold:
  "fold (\<lambda>(x, y) t. t\<lparr>phi := (phi t)(idx t x y := phi t (idx t x y) + a * pCG t (idx t x y))\<rparr>) cs t
   = t\<lparr>phi := fold (\<lambda>(x, y) b. b(idx t x y := b (idx t x y) + a * pCG t (idx t x y))) cs (phi t)\<rparr>"
  by (induction cs arbitrary: t) auto

lemma update_r_fold:
  "fold (\<lambda>(x, y) t. t\<lparr>rCG := (rCG t)(idx t x y := rCG t (idx t x y) - a * vCG t (idx t x y))\<rparr>) cs t
   = t\<lparr>rCG := fold (\<lambda>(x, y) b. b(idx t x y := b (idx t x y) - a * vCG t (idx t x y))) cs (rCG t)\<rparr>"
  by (induction cs arbitrary: t) auto

lemma update_p_fold:
  "fold (\<lambda>(x, y) t. t\<lparr>pCG := (pCG t)(idx t x y := rCG t (idx t x y) + g * pCG t (idx t x y))\<rparr>) cs t
   = t\<lparr>pCG := fold (\<lambda>(x, y) b. b(idx t x y := rCG t (idx t x y) + g * b (idx t x y))) cs (pCG t)\<rparr>"
  by (induction cs arbitrary: t) auto

lemma calc_v_cell_eq:
  "calc_v_cell x y t = t\<lparr>vCG := (vCG t)(idx t x y := matvec t (x, y))\<rparr>"
  unfolding calc_v_cell_def matvec_def neighbours_def mult_double_commute [of _ "Fin 0.25"]
  by (simp add: Let_def)

lemma matvec_vCG_update [simp]: "matvec (vCG_update f t) = matvec t"
  by (simp add: matvec_def neighbours_def fun_eq_iff)

lemma calc_v_fold:
  "fold (\<lambda>(x, y). calc_v_cell x y) cs t
   = t\<lparr>vCG := fold (\<lambda>(x, y) b. b(idx t x y := matvec t (x, y))) cs (vCG t)\<rparr>"
  by (induction cs arbitrary: t) (auto simp: calc_v_cell_eq)

lemma fold_plus:
  fixes s :: double
  shows "fold (\<lambda>(x, y) acc. acc + f x y) cs s = s + (\<Sum>(x, y)\<leftarrow>cs. f x y)"
  by (induction cs arbitrary: s) (auto simp: add.assoc)


lemma calc_v_eq:
  "calc_v t = t\<lparr>vCG := fold (\<lambda>(x, y) b. b(idx t x y := matvec t (x, y))) (interior_cells t) (vCG t)\<rparr>"
  by (simp add: calc_v_def calc_v_fold)

lemma update_phi_eq:
  "update_phi a t = t\<lparr>phi := fold (\<lambda>(x, y) b. b(idx t x y := b (idx t x y) + a * pCG t (idx t x y)))
       (interior_cells t) (phi t)\<rparr>"
  by (simp add: update_phi_def update_phi_fold)

lemma update_r_eq:
  "update_r a t = t\<lparr>rCG := fold (\<lambda>(x, y) b. b(idx t x y := b (idx t x y) - a * vCG t (idx t x y)))
       (interior_cells t) (rCG t)\<rparr>"
  by (simp add: update_r_def update_r_fold)

lemma update_p_eq:
  "update_p g t = t\<lparr>pCG := fold (\<lambda>(x, y) b. b(idx t x y := rCG t (idx t x y) + g * b (idx t x y)))
       (interior_cells t) (pCG t)\<rparr>"
  by (simp add: update_p_def update_p_fold)

lemma calc_v_in:
  "(x, y) \<in> set (interior_cells t) \<Longrightarrow> vCG (calc_v t) (idx t x y) = matvec t (x, y)"
  using fold_assign_in [OF distinct_interior_cells inj_on_idx_interior,
      of x y t "\<lambda>x y old. matvec t (x, y)" "vCG t"]
  by (simp add: calc_v_eq)

lemma calc_v_out:
  "a \<notin> (\<lambda>(x, y). idx t x y) ` set (interior_cells t) \<Longrightarrow> vCG (calc_v t) a = vCG t a"
  using fold_assign_out [of a "idx t" "interior_cells t" "\<lambda>x y old. matvec t (x, y)" "vCG t"]
  by (simp add: calc_v_eq)

lemma update_phi_in:
  "(x, y) \<in> set (interior_cells t) \<Longrightarrow>
   phi (update_phi a t) (idx t x y) = phi t (idx t x y) + a * pCG t (idx t x y)"
  using fold_assign_in [OF distinct_interior_cells inj_on_idx_interior,
      of x y t "\<lambda>x y old. old + a * pCG t (idx t x y)" "phi t"]
  by (simp add: update_phi_eq)

lemma update_phi_out:
  "b \<notin> (\<lambda>(x, y). idx t x y) ` set (interior_cells t) \<Longrightarrow> phi (update_phi a t) b = phi t b"
  using fold_assign_out [of b "idx t" "interior_cells t" "\<lambda>x y old. old + a * pCG t (idx t x y)" "phi t"]
  by (simp add: update_phi_eq)

lemma update_r_in:
  "(x, y) \<in> set (interior_cells t) \<Longrightarrow>
   rCG (update_r a t) (idx t x y) = rCG t (idx t x y) - a * vCG t (idx t x y)"
  using fold_assign_in [OF distinct_interior_cells inj_on_idx_interior,
      of x y t "\<lambda>x y old. old - a * vCG t (idx t x y)" "rCG t"]
  by (simp add: update_r_eq)

lemma update_r_out:
  "b \<notin> (\<lambda>(x, y). idx t x y) ` set (interior_cells t) \<Longrightarrow> rCG (update_r a t) b = rCG t b"
  using fold_assign_out [of b "idx t" "interior_cells t" "\<lambda>x y old. old - a * vCG t (idx t x y)" "rCG t"]
  by (simp add: update_r_eq)

lemma update_p_in:
  "(x, y) \<in> set (interior_cells t) \<Longrightarrow>
   pCG (update_p g t) (idx t x y) = rCG t (idx t x y) + g * pCG t (idx t x y)"
  using fold_assign_in [OF distinct_interior_cells inj_on_idx_interior,
      of x y t "\<lambda>x y old. rCG t (idx t x y) + g * old" "pCG t"]
  by (simp add: update_p_eq)

lemma update_p_out:
  "b \<notin> (\<lambda>(x, y). idx t x y) ` set (interior_cells t) \<Longrightarrow> pCG (update_p g t) b = pCG t b"
  using fold_assign_out [of b "idx t" "interior_cells t" "\<lambda>x y old. rCG t (idx t x y) + g * old" "pCG t"]
  by (simp add: update_p_eq)

lemma calc_v_frame [simp]:
  "phi (calc_v t) = phi t" "pCG (calc_v t) = pCG t" "rCG (calc_v t) = rCG t"
  "source (calc_v t) = source t" "dim_x (calc_v t) = dim_x t" "dim_y (calc_v t) = dim_y t"
  "offset_x (calc_v t) = offset_x t" "offset_y (calc_v t) = offset_y t"
  "idx (calc_v t) = idx t" "interior_cells (calc_v t) = interior_cells t"
  by (simp_all add: calc_v_eq)

lemma update_phi_frame [simp]:
  "vCG (update_phi a t) = vCG t" "pCG (update_phi a t) = pCG t" "rCG (update_phi a t) = rCG t"
  "source (update_phi a t) = source t" "dim_x (update_phi a t) = dim_x t"
  "dim_y (update_phi a t) = dim_y t"
  "offset_x (update_phi a t) = offset_x t" "offset_y (update_phi a t) = offset_y t"
  "idx (update_phi a t) = idx t" "interior_cells (update_phi a t) = interior_cells t"
  by (simp_all add: update_phi_eq)

lemma update_r_frame [simp]:
  "vCG (update_r a t) = vCG t" "pCG (update_r a t) = pCG t" "phi (update_r a t) = phi t"
  "source (update_r a t) = source t" "dim_x (update_r a t) = dim_x t"
  "dim_y (update_r a t) = dim_y t"
  "offset_x (update_r a t) = offset_x t" "offset_y (update_r a t) = offset_y t"
  "idx (update_r a t) = idx t" "interior_cells (update_r a t) = interior_cells t"
  by (simp_all add: update_r_eq)

lemma update_p_frame [simp]:
  "vCG (update_p g t) = vCG t" "rCG (update_p g t) = rCG t" "phi (update_p g t) = phi t"
  "source (update_p g t) = source t" "dim_x (update_p g t) = dim_x t"
  "dim_y (update_p g t) = dim_y t"
  "offset_x (update_p g t) = offset_x t" "offset_y (update_p g t) = offset_y t"
  "idx (update_p g t) = idx t" "interior_cells (update_p g t) = interior_cells t"
  by (simp_all add: update_p_eq)

lemma sum_list_cells_cong:
  "(\<And>x y. (x, y) \<in> set cs \<Longrightarrow> f x y = g (x, y)) \<Longrightarrow> (\<Sum>(x, y)\<leftarrow>cs. f x y) = (\<Sum>c\<leftarrow>cs. g c)"
  by (rule arg_cong [where f = sum_list]) (auto intro!: map_cong)

lemma calc_pdotv_calc_v:
  "calc_pdotv (calc_v t) = (\<Sum>c\<leftarrow>interior_cells t. (\<lambda>(x, y). pCG t (idx t x y) * matvec t (x, y)) c)"
  unfolding calc_pdotv_def fold_plus
  by (simp add: calc_v_in sum_list_cells_cong)

lemma calc_rdotr_update_r:
  "calc_rdotr (update_r a (update_phi a (calc_v t)))
   = (\<Sum>c\<leftarrow>interior_cells t. (\<lambda>(x, y). (rCG t (idx t x y) - a * matvec t (x, y))
         * (rCG t (idx t x y) - a * matvec t (x, y))) c)"
proof -
  have "\<And>x y. (x, y) \<in> set (interior_cells t) \<Longrightarrow>
      rCG (update_r a (update_phi a (calc_v t))) (idx t x y) = rCG t (idx t x y) - a * matvec t (x, y)"
    using update_r_in [of _ _ "update_phi a (calc_v t)" a] by (simp add: calc_v_in)
  then show ?thesis
    unfolding calc_rdotr_def fold_plus
    by (simp add: sum_list_cells_cong)
qed


lemma map_tiles_simps [simp]:
  "tiles (map_tiles f w) c = f (tiles w c)" "procs (map_tiles f w) = procs w"
  "global_residue (map_tiles f w) = global_residue w"
  "P_grid_x (map_tiles f w) = P_grid_x w" "P_grid_y (map_tiles f w) = P_grid_y w"
  by (simp_all add: map_tiles_def procs_def)

lemma Allreduce_pdotv: "Allreduce_SUM (map_tiles calc_v w) calc_pdotv = global_pdotv w"
  by (simp add: Allreduce_SUM_def global_pdotv_def global_sum_def calc_pdotv_calc_v)

lemma Allreduce_rdotr:
  "Allreduce_SUM (map_tiles (update_r (step_length w)) (map_tiles (update_phi (step_length w))
      (map_tiles calc_v w))) calc_rdotr = new_rdotr w"
  by (simp add: Allreduce_SUM_def new_rdotr_def global_sum_def calc_rdotr_update_r new_r_def
      case_prod_unfold)

lemma Do_Step_CG_eq:
  "Do_Step_CG w =
     map_tiles (\<lambda>t. update_p (gamma w) (update_r (step_length w)
                  (update_phi (step_length w) (calc_v t))))
       (w\<lparr>global_residue := new_rdotr w\<rparr>)"
proof -
  have m: "\<And>f g w. map_tiles f (map_tiles g w) = map_tiles (\<lambda>t. f (g t)) w"
    "\<And>f w r. (map_tiles f w)\<lparr>global_residue := r\<rparr> = map_tiles f (w\<lparr>global_residue := r\<rparr>)"
    by (simp_all add: map_tiles_def)
  have a: "global_residue w / global_pdotv w = step_length w"
    by (simp add: step_length_def)
  show ?thesis
    unfolding Do_Step_CG_def Let_def Allreduce_pdotv map_tiles_simps a Allreduce_rdotr
    by (simp add: m gamma_def)
qed

lemma Do_Step_CG_tile:
  "tiles (Do_Step_CG w) c =
     update_p (gamma w) (update_r (step_length w) (update_phi (step_length w) (calc_v (tiles w c))))"
  "global_residue (Do_Step_CG w) = new_rdotr w"
  "P_grid_x (Do_Step_CG w) = P_grid_x w" "P_grid_y (Do_Step_CG w) = P_grid_y w"
  by (simp_all add: Do_Step_CG_eq)

lemma Do_Step_CG_cell:
  assumes m: "(x, y) \<in> set (interior_cells (tiles w c))"
  shows "vCG (tiles (Do_Step_CG w) c) (idx (tiles w c) x y) = matvec (tiles w c) (x, y)"
    and "phi (tiles (Do_Step_CG w) c) (idx (tiles w c) x y) =
           phi (tiles w c) (idx (tiles w c) x y)
           + step_length w * pCG (tiles w c) (idx (tiles w c) x y)"
    and "rCG (tiles (Do_Step_CG w) c) (idx (tiles w c) x y) = new_r w (tiles w c) (x, y)"
    and "pCG (tiles (Do_Step_CG w) c) (idx (tiles w c) x y) =
           new_r w (tiles w c) (x, y) + gamma w * pCG (tiles w c) (idx (tiles w c) x y)"
proof -
  let ?t = "tiles w c"
  have 1: "vCG (calc_v ?t) (idx ?t x y) = matvec ?t (x, y)"
    using m by (rule calc_v_in)
  have 2: "phi (update_phi (step_length w) (calc_v ?t)) (idx ?t x y)
      = phi ?t (idx ?t x y) + step_length w * pCG ?t (idx ?t x y)"
    using update_phi_in [of x y "calc_v ?t" "step_length w"] m by simp
  have 3: "rCG (update_r (step_length w) (update_phi (step_length w) (calc_v ?t))) (idx ?t x y)
      = new_r w ?t (x, y)"
    using update_r_in [of x y "update_phi (step_length w) (calc_v ?t)" "step_length w"] m 1
    by (simp add: new_r_def)
  have 4: "pCG (update_p (gamma w) (update_r (step_length w) (update_phi (step_length w)
        (calc_v ?t)))) (idx ?t x y) = new_r w ?t (x, y) + gamma w * pCG ?t (idx ?t x y)"
    using update_p_in [of x y "update_r (step_length w) (update_phi (step_length w) (calc_v ?t))"
        "gamma w"] m 3
    by simp
  show "vCG (tiles (Do_Step_CG w) c) (idx ?t x y) = matvec ?t (x, y)"
    "phi (tiles (Do_Step_CG w) c) (idx ?t x y) = phi ?t (idx ?t x y) + step_length w * pCG ?t (idx ?t x y)"
    "rCG (tiles (Do_Step_CG w) c) (idx ?t x y) = new_r w ?t (x, y)"
    "pCG (tiles (Do_Step_CG w) c) (idx ?t x y) = new_r w ?t (x, y) + gamma w * pCG ?t (idx ?t x y)"
    using 1 2 3 4 by (simp_all add: Do_Step_CG_tile)
qed

lemma Do_Step_CG_outside:
  assumes n: "a \<notin> (\<lambda>(x, y). idx (tiles w c) x y) ` set (interior_cells (tiles w c))"
  shows "vCG (tiles (Do_Step_CG w) c) a = vCG (tiles w c) a"
    and "phi (tiles (Do_Step_CG w) c) a = phi (tiles w c) a"
    and "rCG (tiles (Do_Step_CG w) c) a = rCG (tiles w c) a"
    and "pCG (tiles (Do_Step_CG w) c) a = pCG (tiles w c) a"
proof -
  let ?t = "tiles w c"
  have 1: "vCG (calc_v ?t) a = vCG ?t a"
    using n by (rule calc_v_out)
  have 2: "phi (update_phi (step_length w) (calc_v ?t)) a = phi ?t a"
    using update_phi_out [of a "calc_v ?t" "step_length w"] n by simp
  have 3: "rCG (update_r (step_length w) (update_phi (step_length w) (calc_v ?t))) a = rCG ?t a"
    using update_r_out [of a "update_phi (step_length w) (calc_v ?t)" "step_length w"] n by simp
  have 4: "pCG (update_p (gamma w) (update_r (step_length w) (update_phi (step_length w)
        (calc_v ?t)))) a = pCG ?t a"
    using update_p_out [of a "update_r (step_length w) (update_phi (step_length w) (calc_v ?t))"
        "gamma w"] n
    by simp
  show "vCG (tiles (Do_Step_CG w) c) a = vCG ?t a" "phi (tiles (Do_Step_CG w) c) a = phi ?t a"
    "rCG (tiles (Do_Step_CG w) c) a = rCG ?t a" "pCG (tiles (Do_Step_CG w) c) a = pCG ?t a"
    using 1 2 3 4 by (simp_all add: Do_Step_CG_tile)
qed


text \<open>
  Claim C3. The state that \<open>Do_Step_CG\<close> leaves is, at every interior cell of every
  process, in terms of the state \<open>w\<close> before: \<open>v = p - 0.25 * (sum of the four neighbours
  of p)\<close>, or \<open>v = p\<close> at a cell marked as a source; \<open>phi + a * p\<close> with
  \<open>a = global_residue / (global sum of p * v)\<close>; \<open>r - a * v\<close>; and
  \<open>p = (r - a * v) + gamma * p\<close> with
  \<open>gamma = (global sum of the squares of r - a * v) / global_residue\<close>; the new
  \<open>global_residue\<close> is that global sum. Outside the interior cells the four arrays are
  as before, and so are the dimensions, the offsets and the source marks. This holds of
  every state, the arithmetic being that of the type \<open>double\<close>: where a divisor is zero,
  \<open>a\<close> or \<open>gamma\<close> is the infinity or NaN that the division gives.
\<close>

theorem Do_Step_CG_iteration:
  "global_residue (Do_Step_CG w) = new_rdotr w
   \<and> P_grid_x (Do_Step_CG w) = P_grid_x w \<and> P_grid_y (Do_Step_CG w) = P_grid_y w
   \<and> (\<forall>c x y. (x, y) \<in> set (interior_cells (tiles w c)) \<longrightarrow>
         vCG (tiles (Do_Step_CG w) c) (idx (tiles w c) x y) = matvec (tiles w c) (x, y)
         \<and> phi (tiles (Do_Step_CG w) c) (idx (tiles w c) x y) =
             phi (tiles w c) (idx (tiles w c) x y)
             + step_length w * pCG (tiles w c) (idx (tiles w c) x y)
         \<and> rCG (tiles (Do_Step_CG w) c) (idx (tiles w c) x y) = new_r w (tiles w c) (x, y)
         \<and> pCG (tiles (Do_Step_CG w) c) (idx (tiles w c) x y) =
             new_r w (tiles w c) (x, y) + gamma w * pCG (tiles w c) (idx (tiles w c) x y))
   \<and> (\<forall>c a. a \<notin> (\<lambda>(x, y). idx (tiles w c) x y) ` set (interior_cells (tiles w c)) \<longrightarrow>
         vCG (tiles (Do_Step_CG w) c) a = vCG (tiles w c) a
         \<and> phi (tiles (Do_Step_CG w) c) a = phi (tiles w c) a
         \<and> rCG (tiles (Do_Step_CG w) c) a = rCG (tiles w c) a
         \<and> pCG (tiles (Do_Step_CG w) c) a = pCG (tiles w c) a)
   \<and> (\<forall>c. dim_x (tiles (Do_Step_CG w) c) = dim_x (tiles w c)
         \<and> dim_y (tiles (Do_Step_CG w) c) = dim_y (tiles w c)
         \<and> offset_x (tiles (Do_Step_CG w) c) = offset_x (tiles w c)
         \<and> offset_y (tiles (Do_Step_CG w) c) = offset_y (tiles w c)
         \<and> source (tiles (Do_Step_CG w) c) = source (tiles w c))"
proof (intro conjI allI impI)
  show "global_residue (Do_Step_CG w) = new_rdotr w" "P_grid_x (Do_Step_CG w) = P_grid_x w"
    "P_grid_y (Do_Step_CG w) = P_grid_y w"
    by (rule Do_Step_CG_tile)+
next
  fix c x y
  assume m: "(x, y) \<in> set (interior_cells (tiles w c))"
  show "vCG (tiles (Do_Step_CG w) c) (idx (tiles w c) x y) = matvec (tiles w c) (x, y)"
    "phi (tiles (Do_Step_CG w) c) (idx (tiles w c) x y) =
       phi (tiles w c) (idx (tiles w c) x y)
       + step_length w * pCG (tiles w c) (idx (tiles w c) x y)"
    "rCG (tiles (Do_Step_CG w) c) (idx (tiles w c) x y) = new_r w (tiles w c) (x, y)"
    "pCG (tiles (Do_Step_CG w) c) (idx (tiles w c) x y) =
       new_r w (tiles w c) (x, y) + gamma w * pCG (tiles w c) (idx (tiles w c) x y)"
    by (rule Do_Step_CG_cell [OF m])+
next
  fix c a
  assume n: "a \<notin> (\<lambda>(x, y). idx (tiles w c) x y) ` set (interior_cells (tiles w c))"
  show "vCG (tiles (Do_Step_CG w) c) a = vCG (tiles w c) a"
    "phi (tiles (Do_Step_CG w) c) a = phi (tiles w c) a"
    "rCG (tiles (Do_Step_CG w) c) a = rCG (tiles w c) a"
    "pCG (tiles (Do_Step_CG w) c) a = pCG (tiles w c) a"
    by (rule Do_Step_CG_outside [OF n])+
next
  fix c
  show "dim_x (tiles (Do_Step_CG w) c) = dim_x (tiles w c)"
    "dim_y (tiles (Do_Step_CG w) c) = dim_y (tiles w c)"
    "offset_x (tiles (Do_Step_CG w) c) = offset_x (tiles w c)"
    "offset_y (tiles (Do_Step_CG w) c) = offset_y (tiles w c)"
    "source (tiles (Do_Step_CG w) c) = source (tiles w c)"
    by (simp_all add: Do_Step_CG_tile)
qed


lemma one_source_InitCG_tile:
  "tiles (InitCG one_source) (0, 0) =
     \<lparr>dim_x = 4, dim_y = 3, offset_x = 0, offset_y = 0,
       phi = (\<lambda>a. Fin 0)(4 := Fin 4), source = (\<lambda>a. 0)(4 := 1),
       pCG = (\<lambda>a. Fin 0)(4 := Fin 0, 7 := Fin 1), rCG = (\<lambda>a. Fin 0)(4 := Fin 0, 7 := Fin 1),
       vCG = (\<lambda>a. Fin 0)\<rparr>"
  by (simp add: InitCG_tiles one_source_InitCG_local)

lemma one_source_global_pdotv: "global_pdotv (InitCG one_source) = Fin 1"
  unfolding Allreduce_pdotv [symmetric]
  by (simp add: Allreduce_SUM_def procs_def InitCG_grid one_source_grid InitCG_tiles
      one_source_pdotv)

text \<open>
  The theorem on the run with one source, in the state after \<open>InitCG\<close>: the step
  length is 1, the cell \<open>(2, 1)\<close>, element 7, gets \<open>phi = 0 + 1 * 1\<close>, and the new
  \<open>global_residue\<close> is 0.
\<close>

theorem Do_Step_CG_iteration_witness:
  "(2, 1) \<in> set (interior_cells (tiles (InitCG one_source) (0, 0)))
   \<and> global_residue (Do_Step_CG (InitCG one_source)) = new_rdotr (InitCG one_source)
   \<and> phi (tiles (Do_Step_CG (InitCG one_source)) (0, 0)) 7
       = Fin 0 + step_length (InitCG one_source) * Fin 1
   \<and> step_length (InitCG one_source) = Fin 1"
proof -
  let ?w = "InitCG one_source"
  have m: "(2, 1) \<in> set (interior_cells (tiles ?w (0, 0)))"
    by (simp add: one_source_InitCG_tile cells_4x3)
  have v: "idx (tiles ?w (0, 0)) 2 1 = 7" "phi (tiles ?w (0, 0)) 7 = Fin 0"
    "pCG (tiles ?w (0, 0)) 7 = Fin 1"
    by (simp_all add: one_source_InitCG_tile idx_def)
  from Do_Step_CG_iteration [of ?w]
  have r: "global_residue (Do_Step_CG ?w) = new_rdotr ?w"
    and c: "\<forall>c x y. (x, y) \<in> set (interior_cells (tiles ?w c)) \<longrightarrow>
        phi (tiles (Do_Step_CG ?w) c) (idx (tiles ?w c) x y) =
          phi (tiles ?w c) (idx (tiles ?w c) x y)
          + step_length ?w * pCG (tiles ?w c) (idx (tiles ?w c) x y)"
    by simp_all
  from c m have "phi (tiles (Do_Step_CG ?w) (0, 0)) (idx (tiles ?w (0, 0)) 2 1) =
      phi (tiles ?w (0, 0)) (idx (tiles ?w (0, 0)) 2 1)
      + step_length ?w * pCG (tiles ?w (0, 0)) (idx (tiles ?w (0, 0)) 2 1)"
    by blast
  then have p: "phi (tiles (Do_Step_CG ?w) (0, 0)) 7 = Fin 0 + step_length ?w * Fin 1"
    by (simp only: v)
  have s: "step_length ?w = Fin 1"
    by (simp add: step_length_def one_source_global_pdotv one_source_residue)
  from m r p s show ?thesis by blast
qed

section \<open>The exchange of the borders (claim C5)\<close>

lemma field_laws:
  assumes "field get upd"
  shows "get (upd f t) = f (get t)" and "dim_x (upd f t) = dim_x t" and "dim_y (upd f t) = dim_y t"
    and "idx (upd f t) = idx t" and "source (upd f t) = source t"
    and "offset_x (upd f t) = offset_x t" and "offset_y (upd f t) = offset_y t"
  using assms by (auto simp: field_def)

lemma fold_upd_out:
  "a \<notin> A ` set ks \<Longrightarrow> fold (\<lambda>k b. b(A k := V k)) ks b a = b a"
  by (induction ks arbitrary: b) auto

lemma fold_upd_in:
  "inj_on A (set ks) \<Longrightarrow> k \<in> set ks \<Longrightarrow> fold (\<lambda>k b. b(A k := V k)) ks b (A k) = V k"
proof (induction ks arbitrary: b)
  case Nil
  then show ?case by simp
next
  case (Cons j ks)
  show ?case
  proof (cases "k \<in> set ks")
    case True
    then show ?thesis using Cons by simp
  next
    case False
    then have "k = j" using Cons.prems by simp
    moreover have "A j \<notin> A ` set ks"
      using Cons.prems False \<open>k = j\<close> by (auto simp: inj_on_def)
    moreover from this have "fold (\<lambda>k b. b(A k := V k)) ks (b(A j := V j)) (A j)
        = (b(A j := V j)) (A j)"
      by (intro fold_upd_out) simp
    ultimately show ?thesis
      by (simp del: fun_upd_apply) simp
  qed
qed

lemma scatter_line:
  assumes "map (\<lambda>d. base + d) (displacements v) = map A ks" and "msg = map V ks"
  shows "scatter base v msg buf = fold (\<lambda>k b. b(A k := V k)) ks buf"
proof -
  have "fold (\<lambda>(d, val) b. b(base + d := val)) (zip ds ms) buf
      = fold (\<lambda>(a, val) b. b(a := val)) (zip (map (\<lambda>d. base + d) ds) ms) buf" for ds ms
    by (induction ds ms arbitrary: buf rule: list_induct2') auto
  then have "scatter base v msg buf
      = fold (\<lambda>(a, val) b. b(a := val)) (zip (map A ks) (map V ks)) buf"
    by (simp add: scatter_def assms)
  also have "zip (map A ks) (map V ks) = map (\<lambda>k. (A k, V k)) ks"
    by (induction ks) auto
  also have "fold (\<lambda>(a, val) b. b(a := val)) (map (\<lambda>k. (A k, V k)) ks) buf
      = fold (\<lambda>k b. b(A k := V k)) ks buf"
    by (simp add: fold_map o_def)
  finally show ?thesis .
qed

lemma addrs_Y:
  "map (\<lambda>d. idx t 1 y + d) (displacements (Setup_MPI_Datatypes t Y_DIR))
     = map (\<lambda>x. idx t x y) [1..dim_x t - 2]"
proof -
  have "map (\<lambda>x. idx t x y) [1..dim_x t - 2]
      = map (\<lambda>x. idx t x y) (map (\<lambda>i. i + 1) [0..dim_x t - 3])"
    by (simp only: upto_shift) simp
  then show ?thesis
    by (simp add: displacements_Y idx_def o_def algebra_simps)
qed

lemma addrs_X:
  "map (\<lambda>d. idx t x 1 + d) (displacements (Setup_MPI_Datatypes t X_DIR))
     = map (\<lambda>y. idx t x y) [1..dim_y t - 2]"
proof -
  have "map (\<lambda>y. idx t x y) [1..dim_y t - 2]
      = map (\<lambda>y. idx t x y) (map (\<lambda>i. i + 1) [0..dim_y t - 3])"
    by (simp only: upto_shift) simp
  then show ?thesis
    by (simp add: displacements_X idx_def o_def algebra_simps)
qed


lemma row_transfer:
  assumes "dim_x ts = dim_x t" and "0 \<le> yr" and "yr < dim_y t" and "0 \<le> y'" and "y' < dim_y t"
  shows "scatter (idx t 1 yr) (Setup_MPI_Datatypes t Y_DIR)
           (gather bs (idx ts 1 ys) (Setup_MPI_Datatypes ts Y_DIR)) b (idx t x' y')
       = (if y' = yr \<and> 1 \<le> x' \<and> x' \<le> dim_x t - 2 then bs (idx ts x' ys) else b (idx t x' y'))"
proof -
  let ?ks = "[1..dim_x t - 2]"
  have s: "scatter (idx t 1 yr) (Setup_MPI_Datatypes t Y_DIR)
           (gather bs (idx ts 1 ys) (Setup_MPI_Datatypes ts Y_DIR)) b
      = fold (\<lambda>x b. b(idx t x yr := bs (idx ts x ys))) ?ks b"
    by (rule scatter_line) (simp_all add: addrs_Y gather_Y assms(1))
  have inj: "inj_on (\<lambda>x. idx t x yr) (set ?ks)"
    using assms(2,3) by (auto simp: inj_on_def idx_inj)
  show ?thesis
  proof (cases "y' = yr \<and> 1 \<le> x' \<and> x' \<le> dim_x t - 2")
    case True
    then have "x' \<in> set ?ks" by simp
    from fold_upd_in [OF inj this, of "\<lambda>x. bs (idx ts x ys)" b] True show ?thesis
      by (simp add: s)
  next
    case False
    then have "idx t x' y' \<notin> (\<lambda>x. idx t x yr) ` set ?ks"
      using assms(2-5) by (auto simp: idx_inj)
    from fold_upd_out [OF this, of "\<lambda>x. bs (idx ts x ys)" b] False show ?thesis
      by (auto simp: s)
  qed
qed

lemma column_transfer:
  assumes "dim_y ts = dim_y t" and "0 \<le> y'" and "y' < dim_y t"
  shows "scatter (idx t xr 1) (Setup_MPI_Datatypes t X_DIR)
           (gather bs (idx ts xs 1) (Setup_MPI_Datatypes ts X_DIR)) b (idx t x' y')
       = (if x' = xr \<and> 1 \<le> y' \<and> y' \<le> dim_y t - 2 then bs (idx ts xs y') else b (idx t x' y'))"
proof -
  let ?ks = "[1..dim_y t - 2]"
  have s: "scatter (idx t xr 1) (Setup_MPI_Datatypes t X_DIR)
           (gather bs (idx ts xs 1) (Setup_MPI_Datatypes ts X_DIR)) b
      = fold (\<lambda>y b. b(idx t xr y := bs (idx ts xs y))) ?ks b"
    by (rule scatter_line) (simp_all add: addrs_X gather_X assms(1))
  have inj: "inj_on (\<lambda>y. idx t xr y) (set ?ks)"
    by (auto simp: inj_on_def idx_inj)
  show ?thesis
  proof (cases "x' = xr \<and> 1 \<le> y' \<and> y' \<le> dim_y t - 2")
    case True
    then have "y' \<in> set ?ks" by simp
    from fold_upd_in [OF inj this, of "\<lambda>y. bs (idx ts xs y)" b] True show ?thesis
      by (simp add: s)
  next
    case False
    have "idx t x' y' \<notin> (\<lambda>y. idx t xr y) ` set ?ks"
    proof
      assume "idx t x' y' \<in> (\<lambda>y. idx t xr y) ` set ?ks"
      then obtain y where y: "1 \<le> y" "y \<le> dim_y t - 2" "idx t x' y' = idx t xr y" by auto
      then have "x' = xr \<and> y' = y"
        using idx_inj [of y' t y x' xr] assms(2,3) by simp
      with False y show False by simp
    qed
    from fold_upd_out [OF this, of "\<lambda>y. bs (idx ts xs y)" b] False show ?thesis
      by (auto simp: s)
  qed
qed

lemma MPI_Sendrecv_tile:
  "tiles (MPI_Sendrecv get upd sb st dest rb rt src w) c =
     (case src c of
        None \<Rightarrow> tiles w c
      | Some s \<Rightarrow>
          if dest s = Some c
          then upd (scatter (rb (tiles w c)) (rt (tiles w c))
                     (gather (get (tiles w s)) (sb (tiles w s)) (st (tiles w s)))) (tiles w c)
          else tiles w c)"
  by (simp add: MPI_Sendrecv_def Let_def split: option.splits)

lemma MPI_Sendrecv_grid [simp]:
  "P_grid_x (MPI_Sendrecv get upd sb st dest rb rt src w) = P_grid_x w"
  "P_grid_y (MPI_Sendrecv get upd sb st dest rb rt src w) = P_grid_y w"
  "global_residue (MPI_Sendrecv get upd sb st dest rb rt src w) = global_residue w"
  by (simp_all add: MPI_Sendrecv_def)

lemma MPI_Sendrecv_frame:
  assumes "field get upd"
  shows "dim_x (tiles (MPI_Sendrecv get upd sb st dest rb rt src w) c) = dim_x (tiles w c)"
    and "dim_y (tiles (MPI_Sendrecv get upd sb st dest rb rt src w) c) = dim_y (tiles w c)"
    and "idx (tiles (MPI_Sendrecv get upd sb st dest rb rt src w) c) = idx (tiles w c)"
    and "source (tiles (MPI_Sendrecv get upd sb st dest rb rt src w) c) = source (tiles w c)"
    and "offset_x (tiles (MPI_Sendrecv get upd sb st dest rb rt src w) c) = offset_x (tiles w c)"
    and "offset_y (tiles (MPI_Sendrecv get upd sb st dest rb rt src w) c) = offset_y (tiles w c)"
  by (simp_all add: MPI_Sendrecv_tile field_laws [OF assms] split: option.splits)


lemma idx_cong: "dim_y t0 = dim_y t \<Longrightarrow> idx t0 = idx t"
  by (simp add: idx_def fun_eq_iff)

lemma well_formedD:
  assumes "well_formed w" and "in_grid w (cx, cy)"
  shows "3 \<le> dim_x (tiles w (cx, cy))" and "3 \<le> dim_y (tiles w (cx, cy))"
    and "dim_x (tiles w (cx, cy)) = dim_x (tiles w (cx, 0))"
    and "dim_y (tiles w (cx, cy)) = dim_y (tiles w (0, cy))"
  using assms unfolding well_formed_def by blast+

lemma traffic_frame:
  assumes "field get upd"
  shows "dim_x (tiles (traffic_top get upd w) c) = dim_x (tiles w c)"
    and "dim_y (tiles (traffic_top get upd w) c) = dim_y (tiles w c)"
    and "dim_x (tiles (traffic_bottom get upd w) c) = dim_x (tiles w c)"
    and "dim_y (tiles (traffic_bottom get upd w) c) = dim_y (tiles w c)"
    and "dim_x (tiles (traffic_left get upd w) c) = dim_x (tiles w c)"
    and "dim_y (tiles (traffic_left get upd w) c) = dim_y (tiles w c)"
    and "dim_x (tiles (traffic_right get upd w) c) = dim_x (tiles w c)"
    and "dim_y (tiles (traffic_right get upd w) c) = dim_y (tiles w c)"
  by (simp_all add: traffic_top_def traffic_bottom_def traffic_left_def traffic_right_def
      MPI_Sendrecv_frame [OF assms])

lemma traffic_grid [simp]:
  "in_grid (traffic_top get upd w) = in_grid w" "in_grid (traffic_bottom get upd w) = in_grid w"
  "in_grid (traffic_left get upd w) = in_grid w" "in_grid (traffic_right get upd w) = in_grid w"
  "P_grid_x (traffic_top get upd w) = P_grid_x w" "P_grid_y (traffic_top get upd w) = P_grid_y w"
  "P_grid_x (traffic_bottom get upd w) = P_grid_x w" "P_grid_y (traffic_bottom get upd w) = P_grid_y w"
  "P_grid_x (traffic_left get upd w) = P_grid_x w" "P_grid_y (traffic_left get upd w) = P_grid_y w"
  "P_grid_x (traffic_right get upd w) = P_grid_x w" "P_grid_y (traffic_right get upd w) = P_grid_y w"
  by (simp_all add: traffic_top_def traffic_bottom_def traffic_left_def traffic_right_def
      in_grid_def)

lemma well_formed_cong:
  assumes "\<And>c. dim_x (tiles w' c) = dim_x (tiles w c)"
    and "\<And>c. dim_y (tiles w' c) = dim_y (tiles w c)" and "in_grid w' = in_grid w"
  shows "well_formed w' = well_formed w"
  unfolding well_formed_def by (simp only: assms)

lemma traffic_well_formed:
  assumes "field get upd" and "well_formed w"
  shows "well_formed (traffic_top get upd w)" and "well_formed (traffic_bottom get upd w)"
    and "well_formed (traffic_left get upd w)" and "well_formed (traffic_right get upd w)"
proof -
  have "well_formed (traffic_top get upd w) = well_formed w"
    by (rule well_formed_cong) (simp_all add: traffic_frame [OF assms(1)])
  then show "well_formed (traffic_top get upd w)" using assms(2) by simp
  have "well_formed (traffic_bottom get upd w) = well_formed w"
    by (rule well_formed_cong) (simp_all add: traffic_frame [OF assms(1)])
  then show "well_formed (traffic_bottom get upd w)" using assms(2) by simp
  have "well_formed (traffic_left get upd w) = well_formed w"
    by (rule well_formed_cong) (simp_all add: traffic_frame [OF assms(1)])
  then show "well_formed (traffic_left get upd w)" using assms(2) by simp
  have "well_formed (traffic_right get upd w) = well_formed w"
    by (rule well_formed_cong) (simp_all add: traffic_frame [OF assms(1)])
  then show "well_formed (traffic_right get upd w)" using assms(2) by simp
qed

lemma traffic_top_get:
  assumes f: "field get upd" and wf: "well_formed w" and g: "in_grid w (cx, cy)"
    and d: "dim_y t0 = dim_y (tiles w (cx, cy))" and y: "0 \<le> y'" "y' < dim_y t0"
  shows "get (tiles (traffic_top get upd w) (cx, cy)) (idx t0 x' y') =
      (if cy + 1 < P_grid_y w \<and> y' = dim_y t0 - 1 \<and> 1 \<le> x' \<and> x' \<le> dim_x (tiles w (cx, cy)) - 2
       then get (tiles w (cx, cy + 1)) (idx (tiles w (cx, cy + 1)) x' 1)
       else get (tiles w (cx, cy)) (idx t0 x' y'))"
proof (cases "cy + 1 < P_grid_y w")
  case False
  then show ?thesis
    by (simp add: traffic_top_def MPI_Sendrecv_tile proc_bottom_def)
next
  case True
  let ?t = "tiles w (cx, cy)" and ?s = "tiles w (cx, cy + 1)"
  have gs: "in_grid w (cx, cy + 1)" using g True by (simp add: in_grid_def)
  have dx: "dim_x ?s = dim_x ?t"
    using well_formedD(3) [OF wf g] well_formedD(3) [OF wf gs] by simp
  have dy: "3 \<le> dim_y ?t" by (rule well_formedD(2) [OF wf g])
  have cy: "0 \<le> cy" using g by (simp add: in_grid_def)
  have i: "idx t0 = idx ?t" by (rule idx_cong [OF d])
  have "get (tiles (traffic_top get upd w) (cx, cy)) =
      scatter (idx ?t 1 (dim_y ?t - 1)) (Setup_MPI_Datatypes ?t Y_DIR)
        (gather (get ?s) (idx ?s 1 1) (Setup_MPI_Datatypes ?s Y_DIR)) (get ?t)"
    using True cy
    by (simp add: traffic_top_def MPI_Sendrecv_tile proc_bottom_def proc_top_def field_laws [OF f])
  then show ?thesis
    using row_transfer [OF dx, of "dim_y ?t - 1" y' "get ?s" 1 "get ?t" x'] dy y True
    by (simp add: i d)
qed

lemma traffic_bottom_get:
  assumes f: "field get upd" and wf: "well_formed w" and g: "in_grid w (cx, cy)"
    and d: "dim_y t0 = dim_y (tiles w (cx, cy))" and y: "0 \<le> y'" "y' < dim_y t0"
  shows "get (tiles (traffic_bottom get upd w) (cx, cy)) (idx t0 x' y') =
      (if 0 \<le> cy - 1 \<and> y' = 0 \<and> 1 \<le> x' \<and> x' \<le> dim_x (tiles w (cx, cy)) - 2
       then get (tiles w (cx, cy - 1))
              (idx (tiles w (cx, cy - 1)) x' (dim_y (tiles w (cx, cy - 1)) - 2))
       else get (tiles w (cx, cy)) (idx t0 x' y'))"
proof (cases "0 \<le> cy - 1")
  case False
  then show ?thesis
    by (simp add: traffic_bottom_def MPI_Sendrecv_tile proc_top_def)
next
  case True
  let ?t = "tiles w (cx, cy)" and ?s = "tiles w (cx, cy - 1)"
  have gs: "in_grid w (cx, cy - 1)" using g True by (simp add: in_grid_def)
  have dx: "dim_x ?s = dim_x ?t"
    using well_formedD(3) [OF wf g] well_formedD(3) [OF wf gs] by simp
  have dy: "3 \<le> dim_y ?t" by (rule well_formedD(2) [OF wf g])
  have cy: "cy < P_grid_y w" using g by (simp add: in_grid_def)
  have i: "idx t0 = idx ?t" by (rule idx_cong [OF d])
  have "get (tiles (traffic_bottom get upd w) (cx, cy)) =
      scatter (idx ?t 1 0) (Setup_MPI_Datatypes ?t Y_DIR)
        (gather (get ?s) (idx ?s 1 (dim_y ?s - 2)) (Setup_MPI_Datatypes ?s Y_DIR)) (get ?t)"
    using True cy
    by (simp add: traffic_bottom_def MPI_Sendrecv_tile proc_bottom_def proc_top_def
        field_laws [OF f])
  then show ?thesis
    using row_transfer [OF dx, of 0 y' "get ?s" "dim_y ?s - 2" "get ?t" x'] dy y True
    by (simp add: i d)
qed

lemma traffic_left_get:
  assumes f: "field get upd" and wf: "well_formed w" and g: "in_grid w (cx, cy)"
    and d: "dim_y t0 = dim_y (tiles w (cx, cy))" and y: "0 \<le> y'" "y' < dim_y t0"
  shows "get (tiles (traffic_left get upd w) (cx, cy)) (idx t0 x' y') =
      (if cx + 1 < P_grid_x w \<and> x' = dim_x (tiles w (cx, cy)) - 1 \<and> 1 \<le> y' \<and> y' \<le> dim_y t0 - 2
       then get (tiles w (cx + 1, cy)) (idx (tiles w (cx + 1, cy)) 1 y')
       else get (tiles w (cx, cy)) (idx t0 x' y'))"
proof (cases "cx + 1 < P_grid_x w")
  case False
  then show ?thesis
    by (simp add: traffic_left_def MPI_Sendrecv_tile proc_right_def)
next
  case True
  let ?t = "tiles w (cx, cy)" and ?s = "tiles w (cx + 1, cy)"
  have gs: "in_grid w (cx + 1, cy)" using g True by (simp add: in_grid_def)
  have dys: "dim_y ?s = dim_y ?t"
    using well_formedD(4) [OF wf g] well_formedD(4) [OF wf gs] by simp
  have cx: "0 \<le> cx" using g by (simp add: in_grid_def)
  have i: "idx t0 = idx ?t" by (rule idx_cong [OF d])
  have "get (tiles (traffic_left get upd w) (cx, cy)) =
      scatter (idx ?t (dim_x ?t - 1) 1) (Setup_MPI_Datatypes ?t X_DIR)
        (gather (get ?s) (idx ?s 1 1) (Setup_MPI_Datatypes ?s X_DIR)) (get ?t)"
    using True cx
    by (simp add: traffic_left_def MPI_Sendrecv_tile proc_right_def proc_left_def
        field_laws [OF f])
  then show ?thesis
    using column_transfer [OF dys, of y' "dim_x ?t - 1" "get ?s" 1 "get ?t" x'] y True
    by (simp add: i d)
qed

lemma traffic_right_get:
  assumes f: "field get upd" and wf: "well_formed w" and g: "in_grid w (cx, cy)"
    and d: "dim_y t0 = dim_y (tiles w (cx, cy))" and y: "0 \<le> y'" "y' < dim_y t0"
  shows "get (tiles (traffic_right get upd w) (cx, cy)) (idx t0 x' y') =
      (if 0 \<le> cx - 1 \<and> x' = 0 \<and> 1 \<le> y' \<and> y' \<le> dim_y t0 - 2
       then get (tiles w (cx - 1, cy))
              (idx (tiles w (cx - 1, cy)) (dim_x (tiles w (cx - 1, cy)) - 2) y')
       else get (tiles w (cx, cy)) (idx t0 x' y'))"
proof (cases "0 \<le> cx - 1")
  case False
  then show ?thesis
    by (simp add: traffic_right_def MPI_Sendrecv_tile proc_left_def)
next
  case True
  let ?t = "tiles w (cx, cy)" and ?s = "tiles w (cx - 1, cy)"
  have gs: "in_grid w (cx - 1, cy)" using g True by (simp add: in_grid_def)
  have dys: "dim_y ?s = dim_y ?t"
    using well_formedD(4) [OF wf g] well_formedD(4) [OF wf gs] by simp
  have cx: "cx < P_grid_x w" using g by (simp add: in_grid_def)
  have i: "idx t0 = idx ?t" by (rule idx_cong [OF d])
  have "get (tiles (traffic_right get upd w) (cx, cy)) =
      scatter (idx ?t 0 1) (Setup_MPI_Datatypes ?t X_DIR)
        (gather (get ?s) (idx ?s (dim_x ?s - 2) 1) (Setup_MPI_Datatypes ?s X_DIR)) (get ?t)"
    using True cx
    by (simp add: traffic_right_def MPI_Sendrecv_tile proc_right_def proc_left_def
        field_laws [OF f])
  then show ?thesis
    using column_transfer [OF dys, of y' 0 "get ?s" "dim_x ?s - 2" "get ?t" x'] y True
    by (simp add: i d)
qed


lemma traffic_interior:
  assumes f: "field get upd" and wf: "well_formed w" and g: "in_grid w (cx, cy)"
    and d: "dim_y t0 = dim_y (tiles w (cx, cy))"
    and x: "1 \<le> x" "x \<le> dim_x (tiles w (cx, cy)) - 2" and y: "1 \<le> y" "y \<le> dim_y t0 - 2"
  shows "get (tiles (traffic_top get upd w) (cx, cy)) (idx t0 x y) = get (tiles w (cx, cy)) (idx t0 x y)"
    and "get (tiles (traffic_bottom get upd w) (cx, cy)) (idx t0 x y) = get (tiles w (cx, cy)) (idx t0 x y)"
    and "get (tiles (traffic_left get upd w) (cx, cy)) (idx t0 x y) = get (tiles w (cx, cy)) (idx t0 x y)"
    and "get (tiles (traffic_right get upd w) (cx, cy)) (idx t0 x y) = get (tiles w (cx, cy)) (idx t0 x y)"
proof -
  have r: "0 \<le> y" "y < dim_y t0" using y by simp_all
  show "get (tiles (traffic_top get upd w) (cx, cy)) (idx t0 x y) = get (tiles w (cx, cy)) (idx t0 x y)"
    using traffic_top_get [OF f wf g d r, of x] y by simp
  show "get (tiles (traffic_bottom get upd w) (cx, cy)) (idx t0 x y) = get (tiles w (cx, cy)) (idx t0 x y)"
    using traffic_bottom_get [OF f wf g d r, of x] y by simp
  show "get (tiles (traffic_left get upd w) (cx, cy)) (idx t0 x y) = get (tiles w (cx, cy)) (idx t0 x y)"
    using traffic_left_get [OF f wf g d r, of x] x by simp
  show "get (tiles (traffic_right get upd w) (cx, cy)) (idx t0 x y) = get (tiles w (cx, cy)) (idx t0 x y)"
    using traffic_right_get [OF f wf g d r, of x] x by simp
qed

lemma Exchange_Borders_frame:
  assumes "field get upd"
  shows "dim_x (tiles (Exchange_Borders get upd w) c) = dim_x (tiles w c)"
    and "dim_y (tiles (Exchange_Borders get upd w) c) = dim_y (tiles w c)"
    and "idx (tiles (Exchange_Borders get upd w) c) = idx (tiles w c)"
    and "in_grid (Exchange_Borders get upd w) = in_grid w"
    and "P_grid_x (Exchange_Borders get upd w) = P_grid_x w"
    and "P_grid_y (Exchange_Borders get upd w) = P_grid_y w"
proof -
  show d: "dim_y (tiles (Exchange_Borders get upd w) c) = dim_y (tiles w c)"
    by (simp add: Exchange_Borders_def Let_def traffic_frame [OF assms])
  show "idx (tiles (Exchange_Borders get upd w) c) = idx (tiles w c)"
    by (rule idx_cong [OF d])
qed (simp_all add: Exchange_Borders_def Let_def traffic_frame [OF assms])

lemma Exchange_Borders_get:
  assumes f: "field get upd" and wf: "well_formed w" and g: "in_grid w (cx, cy)"
    and y: "0 \<le> y'" "y' < dim_y (tiles w (cx, cy))"
  shows "get (tiles (Exchange_Borders get upd w) (cx, cy)) (idx (tiles w (cx, cy)) x' y') =
     (if 0 \<le> cx - 1 \<and> x' = 0 \<and> 1 \<le> y' \<and> y' \<le> dim_y (tiles w (cx, cy)) - 2
      then get (tiles w (cx - 1, cy)) (idx (tiles w (cx - 1, cy)) (dim_x (tiles w (cx - 1, cy)) - 2) y')
      else if cx + 1 < P_grid_x w \<and> x' = dim_x (tiles w (cx, cy)) - 1 \<and> 1 \<le> y'
              \<and> y' \<le> dim_y (tiles w (cx, cy)) - 2
      then get (tiles w (cx + 1, cy)) (idx (tiles w (cx + 1, cy)) 1 y')
      else if 0 \<le> cy - 1 \<and> y' = 0 \<and> 1 \<le> x' \<and> x' \<le> dim_x (tiles w (cx, cy)) - 2
      then get (tiles w (cx, cy - 1)) (idx (tiles w (cx, cy - 1)) x' (dim_y (tiles w (cx, cy - 1)) - 2))
      else if cy + 1 < P_grid_y w \<and> y' = dim_y (tiles w (cx, cy)) - 1 \<and> 1 \<le> x'
              \<and> x' \<le> dim_x (tiles w (cx, cy)) - 2
      then get (tiles w (cx, cy + 1)) (idx (tiles w (cx, cy + 1)) x' 1)
      else get (tiles w (cx, cy)) (idx (tiles w (cx, cy)) x' y'))"
proof -
  let ?w1 = "traffic_top get upd w"
  let ?w2 = "traffic_bottom get upd ?w1"
  let ?w3 = "traffic_left get upd ?w2"
  let ?w4 = "traffic_right get upd ?w3"
  let ?t = "tiles w (cx, cy)"
  note fr = traffic_frame [OF f]
  have wf1: "well_formed ?w1" by (rule traffic_well_formed [OF f wf])
  have wf2: "well_formed ?w2" by (rule traffic_well_formed [OF f wf1])
  have wf3: "well_formed ?w3" by (rule traffic_well_formed [OF f wf2])
  have g1: "in_grid ?w1 (cx, cy)" and g2: "in_grid ?w2 (cx, cy)" and g3: "in_grid ?w3 (cx, cy)"
    using g by simp_all
  have d1: "dim_y ?t = dim_y (tiles ?w1 (cx, cy))" and d2: "dim_y ?t = dim_y (tiles ?w2 (cx, cy))"
    and d3: "dim_y ?t = dim_y (tiles ?w3 (cx, cy))"
    by (simp_all add: fr)
  have e: "Exchange_Borders get upd w = ?w4"
    by (simp add: Exchange_Borders_def Let_def)
  have 4: "get (tiles ?w4 (cx, cy)) (idx ?t x' y') =
      (if 0 \<le> cx - 1 \<and> x' = 0 \<and> 1 \<le> y' \<and> y' \<le> dim_y ?t - 2
       then get (tiles ?w3 (cx - 1, cy))
              (idx (tiles ?w3 (cx - 1, cy)) (dim_x (tiles ?w3 (cx - 1, cy)) - 2) y')
       else get (tiles ?w3 (cx, cy)) (idx ?t x' y'))"
    by (rule traffic_right_get [OF f wf3 g3 d3 y])
  have 3: "get (tiles ?w3 (cx, cy)) (idx ?t x' y') =
      (if cx + 1 < P_grid_x w \<and> x' = dim_x ?t - 1 \<and> 1 \<le> y' \<and> y' \<le> dim_y ?t - 2
       then get (tiles ?w2 (cx + 1, cy)) (idx (tiles ?w2 (cx + 1, cy)) 1 y')
       else get (tiles ?w2 (cx, cy)) (idx ?t x' y'))"
    using traffic_left_get [OF f wf2 g2 d2 y, of x'] by (simp add: fr)
  have 2: "get (tiles ?w2 (cx, cy)) (idx ?t x' y') =
      (if 0 \<le> cy - 1 \<and> y' = 0 \<and> 1 \<le> x' \<and> x' \<le> dim_x ?t - 2
       then get (tiles ?w1 (cx, cy - 1))
              (idx (tiles ?w1 (cx, cy - 1)) x' (dim_y (tiles ?w1 (cx, cy - 1)) - 2))
       else get (tiles ?w1 (cx, cy)) (idx ?t x' y'))"
    using traffic_bottom_get [OF f wf1 g1 d1 y, of x'] by (simp add: fr)
  have 1: "get (tiles ?w1 (cx, cy)) (idx ?t x' y') =
      (if cy + 1 < P_grid_y w \<and> y' = dim_y ?t - 1 \<and> 1 \<le> x' \<and> x' \<le> dim_x ?t - 2
       then get (tiles w (cx, cy + 1)) (idx (tiles w (cx, cy + 1)) x' 1)
       else get ?t (idx ?t x' y'))"
    by (rule traffic_top_get [OF f wf g refl y])
  have L: "get (tiles ?w3 (cx - 1, cy))
              (idx (tiles ?w3 (cx - 1, cy)) (dim_x (tiles ?w3 (cx - 1, cy)) - 2) y')
      = get (tiles w (cx - 1, cy)) (idx (tiles w (cx - 1, cy)) (dim_x (tiles w (cx - 1, cy)) - 2) y')"
    if c: "0 \<le> cx - 1" "1 \<le> y'" "y' \<le> dim_y ?t - 2"
  proof -
    let ?c = "(cx - 1, cy)" and ?s = "tiles w (cx - 1, cy)"
    have gs: "in_grid w ?c" using g c by (simp add: in_grid_def)
    have ds: "dim_y ?s = dim_y ?t"
      using well_formedD(4) [OF wf g] well_formedD(4) [OF wf gs] by simp
    have x: "1 \<le> dim_x ?s - 2" "dim_x ?s - 2 \<le> dim_x ?s - 2"
      using well_formedD(1) [OF wf gs] by simp_all
    have yy: "1 \<le> y'" "y' \<le> dim_y ?s - 2" using c ds by simp_all
    have "get (tiles ?w3 ?c) (idx ?s (dim_x ?s - 2) y') = get (tiles ?w2 ?c) (idx ?s (dim_x ?s - 2) y')"
      using traffic_interior(3) [OF f wf2, of "cx - 1" cy ?s "dim_x ?s - 2" y'] gs x yy
      by (simp add: fr)
    also have "\<dots> = get (tiles ?w1 ?c) (idx ?s (dim_x ?s - 2) y')"
      using traffic_interior(2) [OF f wf1, of "cx - 1" cy ?s "dim_x ?s - 2" y'] gs x yy
      by (simp add: fr)
    also have "\<dots> = get ?s (idx ?s (dim_x ?s - 2) y')"
      using traffic_interior(1) [OF f wf, of "cx - 1" cy ?s "dim_x ?s - 2" y'] gs x yy
      by simp
    finally show ?thesis
      by (simp add: fr idx_cong [of "tiles ?w3 ?c" ?s])
  qed
  have R: "get (tiles ?w2 (cx + 1, cy)) (idx (tiles ?w2 (cx + 1, cy)) 1 y')
      = get (tiles w (cx + 1, cy)) (idx (tiles w (cx + 1, cy)) 1 y')"
    if c: "cx + 1 < P_grid_x w" "1 \<le> y'" "y' \<le> dim_y ?t - 2"
  proof -
    let ?c = "(cx + 1, cy)" and ?s = "tiles w (cx + 1, cy)"
    have gs: "in_grid w ?c" using g c by (simp add: in_grid_def)
    have ds: "dim_y ?s = dim_y ?t"
      using well_formedD(4) [OF wf g] well_formedD(4) [OF wf gs] by simp
    have x: "(1::int) \<le> 1" "1 \<le> dim_x ?s - 2"
      using well_formedD(1) [OF wf gs] by simp_all
    have yy: "1 \<le> y'" "y' \<le> dim_y ?s - 2" using c ds by simp_all
    have "get (tiles ?w2 ?c) (idx ?s 1 y') = get (tiles ?w1 ?c) (idx ?s 1 y')"
      using traffic_interior(2) [OF f wf1, of "cx + 1" cy ?s 1 y'] gs x yy
      by (simp add: fr)
    also have "\<dots> = get ?s (idx ?s 1 y')"
      using traffic_interior(1) [OF f wf, of "cx + 1" cy ?s 1 y'] gs x yy
      by simp
    finally show ?thesis
      by (simp add: fr idx_cong [of "tiles ?w2 ?c" ?s])
  qed
  have T: "get (tiles ?w1 (cx, cy - 1))
              (idx (tiles ?w1 (cx, cy - 1)) x' (dim_y (tiles ?w1 (cx, cy - 1)) - 2))
      = get (tiles w (cx, cy - 1)) (idx (tiles w (cx, cy - 1)) x' (dim_y (tiles w (cx, cy - 1)) - 2))"
    if c: "0 \<le> cy - 1" "1 \<le> x'" "x' \<le> dim_x ?t - 2"
  proof -
    let ?c = "(cx, cy - 1)" and ?s = "tiles w (cx, cy - 1)"
    have gs: "in_grid w ?c" using g c by (simp add: in_grid_def)
    have ds: "dim_x ?s = dim_x ?t"
      using well_formedD(3) [OF wf g] well_formedD(3) [OF wf gs] by simp
    have x: "1 \<le> x'" "x' \<le> dim_x ?s - 2" using c ds by simp_all
    have yy: "1 \<le> dim_y ?s - 2" "dim_y ?s - 2 \<le> dim_y ?s - 2"
      using well_formedD(2) [OF wf gs] by simp_all
    have "get (tiles ?w1 ?c) (idx ?s x' (dim_y ?s - 2)) = get ?s (idx ?s x' (dim_y ?s - 2))"
      using traffic_interior(1) [OF f wf, of cx "cy - 1" ?s x' "dim_y ?s - 2"] gs x yy
      by simp
    then show ?thesis
      by (simp add: fr idx_cong [of "tiles ?w1 ?c" ?s])
  qed
  have s4: "get (tiles ?w4 (cx, cy)) (idx ?t x' y') =
      (if 0 \<le> cx - 1 \<and> x' = 0 \<and> 1 \<le> y' \<and> y' \<le> dim_y ?t - 2
       then get (tiles w (cx - 1, cy))
              (idx (tiles w (cx - 1, cy)) (dim_x (tiles w (cx - 1, cy)) - 2) y')
       else get (tiles ?w3 (cx, cy)) (idx ?t x' y'))"
  proof (cases "0 \<le> cx - 1 \<and> x' = 0 \<and> 1 \<le> y' \<and> y' \<le> dim_y ?t - 2")
    case True
    then have "get (tiles ?w4 (cx, cy)) (idx ?t x' y') = get (tiles ?w3 (cx - 1, cy))
              (idx (tiles ?w3 (cx - 1, cy)) (dim_x (tiles ?w3 (cx - 1, cy)) - 2) y')"
      unfolding 4 by simp
    also have "\<dots> = get (tiles w (cx - 1, cy))
              (idx (tiles w (cx - 1, cy)) (dim_x (tiles w (cx - 1, cy)) - 2) y')"
      using True by (intro L) simp_all
    finally show ?thesis using True by simp
  next
    case False
    show ?thesis unfolding 4 by (simp only: False if_False)
  qed
  have s3: "get (tiles ?w3 (cx, cy)) (idx ?t x' y') =
      (if cx + 1 < P_grid_x w \<and> x' = dim_x ?t - 1 \<and> 1 \<le> y' \<and> y' \<le> dim_y ?t - 2
       then get (tiles w (cx + 1, cy)) (idx (tiles w (cx + 1, cy)) 1 y')
       else get (tiles ?w2 (cx, cy)) (idx ?t x' y'))"
  proof (cases "cx + 1 < P_grid_x w \<and> x' = dim_x ?t - 1 \<and> 1 \<le> y' \<and> y' \<le> dim_y ?t - 2")
    case True
    then have "get (tiles ?w3 (cx, cy)) (idx ?t x' y')
        = get (tiles ?w2 (cx + 1, cy)) (idx (tiles ?w2 (cx + 1, cy)) 1 y')"
      unfolding 3 by simp
    also have "\<dots> = get (tiles w (cx + 1, cy)) (idx (tiles w (cx + 1, cy)) 1 y')"
      using True by (intro R) simp_all
    finally show ?thesis using True by simp
  next
    case False
    show ?thesis unfolding 3 by (simp only: False if_False)
  qed
  have s2: "get (tiles ?w2 (cx, cy)) (idx ?t x' y') =
      (if 0 \<le> cy - 1 \<and> y' = 0 \<and> 1 \<le> x' \<and> x' \<le> dim_x ?t - 2
       then get (tiles w (cx, cy - 1))
              (idx (tiles w (cx, cy - 1)) x' (dim_y (tiles w (cx, cy - 1)) - 2))
       else get (tiles ?w1 (cx, cy)) (idx ?t x' y'))"
  proof (cases "0 \<le> cy - 1 \<and> y' = 0 \<and> 1 \<le> x' \<and> x' \<le> dim_x ?t - 2")
    case True
    then have "get (tiles ?w2 (cx, cy)) (idx ?t x' y') = get (tiles ?w1 (cx, cy - 1))
              (idx (tiles ?w1 (cx, cy - 1)) x' (dim_y (tiles ?w1 (cx, cy - 1)) - 2))"
      unfolding 2 by simp
    also have "\<dots> = get (tiles w (cx, cy - 1))
              (idx (tiles w (cx, cy - 1)) x' (dim_y (tiles w (cx, cy - 1)) - 2))"
      using True by (intro T) simp_all
    finally show ?thesis using True by simp
  next
    case False
    show ?thesis unfolding 2 by (simp only: False if_False)
  qed
  show ?thesis
    by (simp only: e s4 s3 s2 1)
qed

text \<open>
  Claim C5. Let every process have a non-empty interior, the processes of a column of
  the process grid the same \<open>dim_x\<close> and those of a row the same \<open>dim_y\<close>, and let the
  array exchanged be \<open>phi\<close> or \<open>pCG\<close>. After \<open>Exchange_Borders\<close>, for every process
  \<open>A\<close> of the grid: where \<open>A\<close> has a bottom, top, right or left neighbour \<open>B\<close>, the border
  row or column of \<open>A\<close> on that side equals the adjacent interior row or column of \<open>B\<close>;
  where the step leaves the grid the neighbour is \<open>MPI_PROC_NULL\<close>, nothing is received
  and the border on that side is as before the call; the interior of \<open>A\<close> is as before,
  and so are its dimensions, offsets and source marks.
\<close>

theorem Exchange_Borders_halo:
  assumes "field get upd" and "well_formed w" and "in_grid w (cx, cy)"
  shows "let w' = Exchange_Borders get upd w; A = tiles w' (cx, cy); old = tiles w (cx, cy) in
    (cy + 1 < P_grid_y w \<longrightarrow> (\<forall>x. 1 \<le> x \<and> x \<le> dim_x A - 2 \<longrightarrow>
        get A (idx A x (dim_y A - 1)) = get (tiles w' (cx, cy + 1)) (idx (tiles w' (cx, cy + 1)) x 1)))
    \<and> (0 < cy \<longrightarrow> (\<forall>x. 1 \<le> x \<and> x \<le> dim_x A - 2 \<longrightarrow>
        get A (idx A x 0) = get (tiles w' (cx, cy - 1))
          (idx (tiles w' (cx, cy - 1)) x (dim_y (tiles w' (cx, cy - 1)) - 2))))
    \<and> (cx + 1 < P_grid_x w \<longrightarrow> (\<forall>y. 1 \<le> y \<and> y \<le> dim_y A - 2 \<longrightarrow>
        get A (idx A (dim_x A - 1) y) = get (tiles w' (cx + 1, cy)) (idx (tiles w' (cx + 1, cy)) 1 y)))
    \<and> (0 < cx \<longrightarrow> (\<forall>y. 1 \<le> y \<and> y \<le> dim_y A - 2 \<longrightarrow>
        get A (idx A 0 y) = get (tiles w' (cx - 1, cy))
          (idx (tiles w' (cx - 1, cy)) (dim_x (tiles w' (cx - 1, cy)) - 2) y)))
    \<and> (proc_bottom w (cx, cy) = None \<longrightarrow>
          (\<forall>x. get A (idx A x (dim_y A - 1)) = get old (idx A x (dim_y A - 1))))
    \<and> (proc_top w (cx, cy) = None \<longrightarrow> (\<forall>x. get A (idx A x 0) = get old (idx A x 0)))
    \<and> (proc_right w (cx, cy) = None \<longrightarrow> (\<forall>y. 0 \<le> y \<and> y < dim_y A \<longrightarrow>
          get A (idx A (dim_x A - 1) y) = get old (idx A (dim_x A - 1) y)))
    \<and> (proc_left w (cx, cy) = None \<longrightarrow> (\<forall>y. 0 \<le> y \<and> y < dim_y A \<longrightarrow>
          get A (idx A 0 y) = get old (idx A 0 y)))
    \<and> (\<forall>x y. 1 \<le> x \<and> x \<le> dim_x A - 2 \<and> 1 \<le> y \<and> y \<le> dim_y A - 2 \<longrightarrow>
          get A (idx A x y) = get old (idx A x y))
    \<and> dim_x A = dim_x old \<and> dim_y A = dim_y old"
proof -
  let ?w' = "Exchange_Borders get upd w"
  let ?t = "tiles w (cx, cy)"
  note f = assms(1) and wf = assms(2) and g = assms(3)
  note fr = Exchange_Borders_frame [OF f]
  have dx: "3 \<le> dim_x ?t" and dy: "3 \<le> dim_y ?t"
    using well_formedD [OF wf g] by simp_all
  have c: "0 \<le> cx" "cx < P_grid_x w" "0 \<le> cy" "cy < P_grid_y w"
    using g by (simp_all add: in_grid_def)
  have own: "\<And>x y. 0 \<le> y \<Longrightarrow> y < dim_y ?t \<Longrightarrow>
      get (tiles ?w' (cx, cy)) (idx ?t x y) =
     (if 0 \<le> cx - 1 \<and> x = 0 \<and> 1 \<le> y \<and> y \<le> dim_y ?t - 2
      then get (tiles w (cx - 1, cy)) (idx (tiles w (cx - 1, cy)) (dim_x (tiles w (cx - 1, cy)) - 2) y)
      else if cx + 1 < P_grid_x w \<and> x = dim_x ?t - 1 \<and> 1 \<le> y \<and> y \<le> dim_y ?t - 2
      then get (tiles w (cx + 1, cy)) (idx (tiles w (cx + 1, cy)) 1 y)
      else if 0 \<le> cy - 1 \<and> y = 0 \<and> 1 \<le> x \<and> x \<le> dim_x ?t - 2
      then get (tiles w (cx, cy - 1)) (idx (tiles w (cx, cy - 1)) x (dim_y (tiles w (cx, cy - 1)) - 2))
      else if cy + 1 < P_grid_y w \<and> y = dim_y ?t - 1 \<and> 1 \<le> x \<and> x \<le> dim_x ?t - 2
      then get (tiles w (cx, cy + 1)) (idx (tiles w (cx, cy + 1)) x 1)
      else get ?t (idx ?t x y))"
    by (rule Exchange_Borders_get [OF f wf g])
  have inner: "get (tiles ?w' (bx, by)) (idx (tiles w (bx, by)) x y) = get (tiles w (bx, by)) (idx (tiles w (bx, by)) x y)"
    if "in_grid w (bx, by)" "1 \<le> x" "x \<le> dim_x (tiles w (bx, by)) - 2"
      "1 \<le> y" "y \<le> dim_y (tiles w (bx, by)) - 2" for bx "by" x y
    using Exchange_Borders_get [OF f wf that(1), of y x] that by simp
  have 1: "get (tiles ?w' (cx, cy)) (idx ?t x (dim_y ?t - 1))
      = get (tiles ?w' (cx, cy + 1)) (idx (tiles w (cx, cy + 1)) x 1)"
    if "cy + 1 < P_grid_y w" "1 \<le> x" "x \<le> dim_x ?t - 2" for x
  proof -
    have gs: "in_grid w (cx, cy + 1)" using g that by (simp add: in_grid_def)
    have ds: "dim_x (tiles w (cx, cy + 1)) = dim_x ?t"
      using well_formedD(3) [OF wf g] well_formedD(3) [OF wf gs] by simp
    have "get (tiles ?w' (cx, cy)) (idx ?t x (dim_y ?t - 1))
        = get (tiles w (cx, cy + 1)) (idx (tiles w (cx, cy + 1)) x 1)"
      using own [of "dim_y ?t - 1" x] that dx dy by simp
    moreover have "get (tiles ?w' (cx, cy + 1)) (idx (tiles w (cx, cy + 1)) x 1)
        = get (tiles w (cx, cy + 1)) (idx (tiles w (cx, cy + 1)) x 1)"
      using inner [OF gs, of x 1] that ds well_formedD(2) [OF wf gs] by simp
    ultimately show ?thesis by simp
  qed
  have 2: "get (tiles ?w' (cx, cy)) (idx ?t x 0)
      = get (tiles ?w' (cx, cy - 1)) (idx (tiles w (cx, cy - 1)) x (dim_y (tiles w (cx, cy - 1)) - 2))"
    if "0 < cy" "1 \<le> x" "x \<le> dim_x ?t - 2" for x
  proof -
    have gs: "in_grid w (cx, cy - 1)" using g that by (simp add: in_grid_def)
    have ds: "dim_x (tiles w (cx, cy - 1)) = dim_x ?t"
      using well_formedD(3) [OF wf g] well_formedD(3) [OF wf gs] by simp
    have "get (tiles ?w' (cx, cy)) (idx ?t x 0)
        = get (tiles w (cx, cy - 1)) (idx (tiles w (cx, cy - 1)) x (dim_y (tiles w (cx, cy - 1)) - 2))"
      using own [of 0 x] that dx dy by simp
    moreover have "get (tiles ?w' (cx, cy - 1))
          (idx (tiles w (cx, cy - 1)) x (dim_y (tiles w (cx, cy - 1)) - 2))
        = get (tiles w (cx, cy - 1)) (idx (tiles w (cx, cy - 1)) x (dim_y (tiles w (cx, cy - 1)) - 2))"
      using inner [OF gs, of x "dim_y (tiles w (cx, cy - 1)) - 2"] that ds
        well_formedD(2) [OF wf gs] by simp
    ultimately show ?thesis by simp
  qed
  have 3: "get (tiles ?w' (cx, cy)) (idx ?t (dim_x ?t - 1) y)
      = get (tiles ?w' (cx + 1, cy)) (idx (tiles w (cx + 1, cy)) 1 y)"
    if "cx + 1 < P_grid_x w" "1 \<le> y" "y \<le> dim_y ?t - 2" for y
  proof -
    have gs: "in_grid w (cx + 1, cy)" using g that by (simp add: in_grid_def)
    have ds: "dim_y (tiles w (cx + 1, cy)) = dim_y ?t"
      using well_formedD(4) [OF wf g] well_formedD(4) [OF wf gs] by simp
    have "get (tiles ?w' (cx, cy)) (idx ?t (dim_x ?t - 1) y)
        = get (tiles w (cx + 1, cy)) (idx (tiles w (cx + 1, cy)) 1 y)"
      using own [of y "dim_x ?t - 1"] that dx dy by simp
    moreover have "get (tiles ?w' (cx + 1, cy)) (idx (tiles w (cx + 1, cy)) 1 y)
        = get (tiles w (cx + 1, cy)) (idx (tiles w (cx + 1, cy)) 1 y)"
      using inner [OF gs, of 1 y] that ds well_formedD(1) [OF wf gs] by simp
    ultimately show ?thesis by simp
  qed
  have 4: "get (tiles ?w' (cx, cy)) (idx ?t 0 y)
      = get (tiles ?w' (cx - 1, cy)) (idx (tiles w (cx - 1, cy)) (dim_x (tiles w (cx - 1, cy)) - 2) y)"
    if "0 < cx" "1 \<le> y" "y \<le> dim_y ?t - 2" for y
  proof -
    have gs: "in_grid w (cx - 1, cy)" using g that by (simp add: in_grid_def)
    have ds: "dim_y (tiles w (cx - 1, cy)) = dim_y ?t"
      using well_formedD(4) [OF wf g] well_formedD(4) [OF wf gs] by simp
    have "get (tiles ?w' (cx, cy)) (idx ?t 0 y)
        = get (tiles w (cx - 1, cy)) (idx (tiles w (cx - 1, cy)) (dim_x (tiles w (cx - 1, cy)) - 2) y)"
      using own [of y 0] that dx dy by simp
    moreover have "get (tiles ?w' (cx - 1, cy))
          (idx (tiles w (cx - 1, cy)) (dim_x (tiles w (cx - 1, cy)) - 2) y)
        = get (tiles w (cx - 1, cy)) (idx (tiles w (cx - 1, cy)) (dim_x (tiles w (cx - 1, cy)) - 2) y)"
      using inner [OF gs, of "dim_x (tiles w (cx - 1, cy)) - 2" y] that ds
        well_formedD(1) [OF wf gs] by simp
    ultimately show ?thesis by simp
  qed
  have 5: "get (tiles ?w' (cx, cy)) (idx ?t x (dim_y ?t - 1)) = get ?t (idx ?t x (dim_y ?t - 1))"
    if "proc_bottom w (cx, cy) = None" for x
    using own [of "dim_y ?t - 1" x] that dy by (simp add: proc_bottom_def split: if_splits)
  have 6: "get (tiles ?w' (cx, cy)) (idx ?t x 0) = get ?t (idx ?t x 0)"
    if "proc_top w (cx, cy) = None" for x
    using own [of 0 x] that dy by (simp add: proc_top_def split: if_splits)
  have 7: "get (tiles ?w' (cx, cy)) (idx ?t (dim_x ?t - 1) y) = get ?t (idx ?t (dim_x ?t - 1) y)"
    if "proc_right w (cx, cy) = None" "0 \<le> y" "y < dim_y ?t" for y
    using own [of y "dim_x ?t - 1"] that dx by (simp add: proc_right_def split: if_splits)
  have 8: "get (tiles ?w' (cx, cy)) (idx ?t 0 y) = get ?t (idx ?t 0 y)"
    if "proc_left w (cx, cy) = None" "0 \<le> y" "y < dim_y ?t" for y
    using own [of y 0] that dx by (simp add: proc_left_def split: if_splits)
  have 9: "get (tiles ?w' (cx, cy)) (idx ?t x y) = get ?t (idx ?t x y)"
    if "1 \<le> x" "x \<le> dim_x ?t - 2" "1 \<le> y" "y \<le> dim_y ?t - 2" for x y
    using inner [OF g] that by simp
  show ?thesis
    unfolding Let_def fr
    using 1 2 3 4 5 6 7 8 9 by simp
qed


lemma two_processes_grid:
  "P_grid_x two_processes = 2 \<and> P_grid_y two_processes = 1"
  by (simp add: two_processes_def Setup_def)

lemma two_processes_in_grid:
  "in_grid two_processes (cx, cy) \<longleftrightarrow> (cx = 0 \<or> cx = 1) \<and> cy = 0"
  by (auto simp: in_grid_def two_processes_grid)

lemma two_processes_tiles:
  "tiles two_processes (0, 0) =
     \<lparr>dim_x = 3, dim_y = 3, offset_x = 0, offset_y = 0,
      phi = (\<lambda>a. 0)(4 := 4), source = (\<lambda>a. 0)(4 := 1),
      pCG = (\<lambda>a. 0), rCG = (\<lambda>a. 0), vCG = (\<lambda>a. 0)\<rparr>"
  "tiles two_processes (1, 0) =
     \<lparr>dim_x = 3, dim_y = 3, offset_x = 1, offset_y = 0,
      phi = (\<lambda>a. 0), source = (\<lambda>a. 0),
      pCG = (\<lambda>a. 0), rCG = (\<lambda>a. 0), vCG = (\<lambda>a. 0)\<rparr>"
  by (simp_all add: two_processes_def setup_defs)

lemma two_processes_well_formed: "well_formed two_processes"
  unfolding well_formed_def two_processes_in_grid
  by (auto simp: two_processes_tiles)

text \<open>
  The theorem on the two processes, for \<open>phi\<close>: after the exchange the left border cell
  of the second process, element 1, holds the 4 of the interior cell of the first, and
  its right border cell, element 7, at the edge of the domain, is as before.
\<close>

theorem Exchange_Borders_halo_witness:
  "field (phi :: real tile \<Rightarrow> real buffer) phi_update
   \<and> well_formed two_processes \<and> in_grid two_processes (1, 0)
   \<and> in_grid two_processes (0, 0) \<and> proc_right two_processes (1, 0) = None
   \<and> phi (tiles (Exchange_Borders phi phi_update two_processes) (1, 0)) 1 = 4
   \<and> phi (tiles (Exchange_Borders phi phi_update two_processes) (1, 0)) 7 = 0"
proof -
  let ?w' = "Exchange_Borders phi phi_update two_processes"
  have f: "field phi phi_update" by (simp add: field_def)
  have g1: "in_grid two_processes (1, 0)" and g0: "in_grid two_processes (0, 0)"
    by (simp_all add: two_processes_in_grid)
  have r: "proc_right two_processes (1, 0) = None"
    by (simp add: proc_right_def two_processes_grid)
  note fr = Exchange_Borders_frame [OF f, of two_processes]
  note a = Exchange_Borders_halo [OF f two_processes_well_formed g1, unfolded Let_def fr]
  note b = Exchange_Borders_halo [OF f two_processes_well_formed g0, unfolded Let_def fr]
  have "phi (tiles ?w' (1, 0)) (idx (tiles two_processes (1, 0)) 0 1)
      = phi (tiles ?w' (0, 0)) (idx (tiles two_processes (0, 0)) (dim_x (tiles two_processes (0, 0)) - 2) 1)"
    using a by (simp add: two_processes_tiles)
  moreover have "phi (tiles ?w' (0, 0)) (idx (tiles two_processes (0, 0)) 1 1)
      = phi (tiles two_processes (0, 0)) (idx (tiles two_processes (0, 0)) 1 1)"
    using b by (simp add: two_processes_tiles)
  ultimately have 1: "phi (tiles ?w' (1, 0)) 1 = 4"
    by (simp add: two_processes_tiles idx_def)
  have "phi (tiles ?w' (1, 0)) (idx (tiles two_processes (1, 0)) (dim_x (tiles two_processes (1, 0)) - 1) 1)
      = phi (tiles two_processes (1, 0)) (idx (tiles two_processes (1, 0)) (dim_x (tiles two_processes (1, 0)) - 1) 1)"
    using a r by (simp add: two_processes_tiles)
  then have 2: "phi (tiles ?w' (1, 0)) 7 = 0"
    by (simp add: two_processes_tiles idx_def)
  from f two_processes_well_formed g1 g0 r 1 2 show ?thesis by simp
qed

section \<open>The sources stay fixed (claim C4)\<close>

subsection \<open>Setup_Grid marks interior cells only\<close>

lemma put_source_frame:
  "dim_x (put_source gx gy s t) = dim_x t \<and> dim_y (put_source gx gy s t) = dim_y t
   \<and> offset_x (put_source gx gy s t) = offset_x t \<and> offset_y (put_source gx gy s t) = offset_y t"
  by (cases s) (simp add: put_source_def Let_def)

lemma put_source_sources_interior:
  assumes "sources_interior t"
  shows "sources_interior (put_source gx gy s t)"
proof -
  obtain sx sy sv where s: "s = (sx, sy, sv)" by (cases s)
  let ?x = "c_trunc (sx * real_of_int gx) + 1 - offset_x t"
  let ?y = "c_trunc (sy * real_of_int gy) + 1 - offset_y t"
  let ?C = "?x > 0 \<and> ?x < dim_x t - 1 \<and> ?y > 0 \<and> ?y < dim_y t - 1"
  have eq: "put_source gx gy s t =
      (if ?C then t\<lparr>phi := (phi t)(idx t ?x ?y := sv), source := (source t)(idx t ?x ?y := 1)\<rparr>
       else t)"
    unfolding put_source_def s by (simp only: Let_def prod.case)
  show ?thesis
  proof (cases ?C)
    case False
    have "put_source gx gy s t = t"
      unfolding eq by (simp only: False if_False)
    then show ?thesis using assms by simp
  next
    case True
    then have m: "(?x, ?y) \<in> set (interior_cells t)"
      by (simp add: interior_cells_iff)
    have e: "put_source gx gy s t =
        t\<lparr>phi := (phi t)(idx t ?x ?y := sv), source := (source t)(idx t ?x ?y := 1)\<rparr>"
      unfolding eq using True by (simp only: simp_thms if_True)
    have i: "idx (put_source gx gy s t) = idx t"
      "interior_cells (put_source gx gy s t) = interior_cells t"
      by (simp_all add: e idx_def interior_cells_def fun_eq_iff)
    show ?thesis
      unfolding sources_interior_def i
    proof (intro allI impI)
      fix a assume "source (put_source gx gy s t) a = 1"
      then have "a = idx t ?x ?y \<or> source t a = 1"
        by (simp add: e split: if_splits)
      then show "a \<in> (\<lambda>(x, y). idx t x y) ` set (interior_cells t)"
        using m assms unfolding sources_interior_def by force
    qed
  qed
qed

lemma Setup_Grid_sources_interior:
  "sources_interior (Setup_Grid gridsize P_grid sources heap proc_coord)"
  unfolding Setup_Grid_def
proof (rule fold_invariant)
  show "sources_interior \<lparr>dim_x = dim_of (fst gridsize) (fst proc_coord) (fst P_grid),
        dim_y = dim_of (snd gridsize) (snd proc_coord) (snd P_grid),
        offset_x = offset_of (fst gridsize) (fst proc_coord) (fst P_grid),
        offset_y = offset_of (snd gridsize) (snd proc_coord) (snd P_grid),
        phi = (\<lambda>a. 0), source = (\<lambda>a. 0),
        pCG = heap, rCG = heap, vCG = heap\<rparr>"
    by (simp add: sources_interior_def)
next
  fix c s assume "sources_interior s"
  then show "sources_interior (put_source (fst gridsize) (snd gridsize) c s)"
    by (rule put_source_sources_interior)
qed

subsection \<open>The sweep leaves the sources\<close>



subsection \<open>The exchange leaves the interior\<close>









subsection \<open>InitCG puts the sources at rest\<close>

lemma initial_r_update [simp]:
  "initial_r (rCG_update f t) = initial_r t" "initial_r (pCG_update f t) = initial_r t"
  by (simp_all add: initial_r_def neighbours_def fun_eq_iff)

lemma InitCG_cell_eq:
  "InitCG_cell x y (t, rdotr) =
     (t\<lparr>rCG := (rCG t)(idx t x y := initial_r t (x, y)),
        pCG := (pCG t)(idx t x y := initial_r t (x, y))\<rparr>,
      rdotr + initial_r t (x, y) * initial_r t (x, y))"
  by (simp add: InitCG_cell_def initial_r_def neighbours_def Let_def)





subsection \<open>Do_Step_CG leaves the sources and keeps them at rest\<close>



subsection \<open>The sources through the iterations\<close>



















section \<open>The stopping rule (claim C7)\<close>

subsection \<open>The two metrics\<close>

lemma procs_in_grid: "set (procs w) = {c. in_grid w c}"
  by (auto simp: procs_def in_grid_def)

lemma procs_not_empty:
  assumes "1 \<le> P_grid_x w" and "1 \<le> P_grid_y w"
  shows "procs w \<noteq> []"
proof -
  have "(0, 0) \<in> set (procs w)"
    using assms by (simp add: procs_in_grid in_grid_def)
  then show ?thesis by auto
qed

lemma Allreduce_MAX_eq:
  assumes "procs w \<noteq> []"
  shows "Allreduce_MAX w f = Max (f ` set (procs w))"
proof -
  obtain c cs where p: "procs w = c # cs"
    using assms by (cases "procs w") auto
  have "Allreduce_MAX w f = fold max (map f cs) (f c)"
    by (simp add: Allreduce_MAX_def p)
  also have "\<dots> = Max (set (f c # map f cs))"
    by (rule Max.set_eq_fold [symmetric])
  finally show ?thesis by (simp add: p)
qed

lemma Exchange_Borders_SOR_procs: "procs (Exchange_Borders_SOR w) = procs w"
proof -
  have f: "field phi (phi_update :: (real buffer \<Rightarrow> real buffer) \<Rightarrow> real tile \<Rightarrow> real tile)"
    by (simp add: field_def)
  show ?thesis
    by (simp add: procs_def Exchange_Borders_SOR_def Exchange_Borders_frame [OF f])
qed

lemma SOR_iteration_eq:
  assumes "1 \<le> P_grid_x u" and "1 \<le> P_grid_y u"
  shows "SOR_iteration u =
     (Exchange_Borders_SOR (map_tiles (\<lambda>t. fst (Do_Step 1 t))
        (Exchange_Borders_SOR (map_tiles (\<lambda>t. fst (Do_Step 0 t)) u))),
      Max ((\<lambda>c. max (snd (Do_Step 0 (tiles u c)))
                     (snd (Do_Step 1 (tiles (Exchange_Borders_SOR
                        (map_tiles (\<lambda>t. fst (Do_Step 0 t)) u)) c))))
           ` {c. in_grid u c}))"
proof -
  let ?w2 = "Exchange_Borders_SOR (map_tiles (\<lambda>t. fst (Do_Step 0 t)) u)"
  let ?w4 = "Exchange_Borders_SOR (map_tiles (\<lambda>t. fst (Do_Step 1 t)) ?w2)"
  have p: "procs ?w4 = procs u"
    by (simp add: Exchange_Borders_SOR_procs)
  have m: "(\<lambda>c. if snd (Do_Step 1 (tiles ?w2 c)) < snd (Do_Step 0 (tiles u c))
        then snd (Do_Step 0 (tiles u c)) else snd (Do_Step 1 (tiles ?w2 c)))
      = (\<lambda>c. max (snd (Do_Step 0 (tiles u c))) (snd (Do_Step 1 (tiles ?w2 c))))"
    by (auto simp: fun_eq_iff max_def)
  have n: "procs ?w4 \<noteq> []"
    unfolding p by (rule procs_not_empty [OF assms])
  show ?thesis
    unfolding SOR_iteration_def Let_def Allreduce_MAX_eq [OF n] m
    by (simp add: p procs_in_grid)
qed

lemma InitCG_fold_snd:
  "snd (fold (\<lambda>(x, y). InitCG_cell x y) cs (t, s)) =
     s + (\<Sum>(x, y)\<leftarrow>cs. initial_r t (x, y) * initial_r t (x, y))"
  by (induction cs arbitrary: t s) (auto simp: InitCG_cell_eq add.assoc)

lemma InitCG_local_snd:
  "snd (InitCG_local t) = (\<Sum>cell\<leftarrow>interior_cells t. initial_r t cell * initial_r t cell)"
  by (simp add: InitCG_local_def InitCG_fold_snd sum_list_cells_cong)

lemma InitCG_residue:
  "global_residue (InitCG w) = global_sum w (\<lambda>t cell. initial_r t cell * initial_r t cell)"
  by (simp add: InitCG_def Let_def Allreduce_SUM_def global_sum_def InitCG_local_snd)

subsection \<open>The loop\<close>

text \<open>
  Claim C7, as the code supports it. Let \<open>precision_goal > 0\<close> and \<open>max_iter > 0\<close>.

  With \<open>CG\<close> the metric is \<open>global_residue\<close>: after \<open>InitCG\<close> the global sum of the squares
  of the initial residual, after an iteration the global sum of the squares of the new
  residual. \<open>Solve\<close> reports \<open>count\<close> and leaves the state \<open>w'\<close> exactly when \<open>w'\<close> is the
  state after \<open>count\<close> iterations, \<open>global_residue\<close> is then not above \<open>precision_goal\<close>,
  that is at or below it or NaN, or \<open>count\<close> has reached \<open>max_iter\<close>, and
  \<open>global_residue\<close> was above \<open>precision_goal\<close> before each of these iterations.

  Without \<open>CG\<close> the metric is \<open>global_delta\<close>: an iteration on a grid of at least one
  process leaves the state after the two sweeps, each followed by an exchange, and the
  maximum over the processes of the larger of the two changes that the sweeps return.
  \<open>Solve\<close> reports \<open>count\<close> and leaves the state \<open>v'\<close> with \<open>global_delta\<close> exactly when
  these are the state and the metric after \<open>count\<close> iterations, at least one,
  \<open>global_delta\<close> is then at or below \<open>goal\<close> or \<open>count\<close> has reached \<open>max_iter\<close>, and
  the metric was above \<open>goal\<close> before each iteration after the first.

  Both ways of leaving the loop give a result of the same form, a count and a state,
  and only the count tells them apart.
\<close>

theorem Solve_stopping_rule:
  assumes "0 < precision_goal" and "0 < goal" and "0 < max_iter"
  shows "(Solve_CG precision_goal max_iter w = (count, w') \<longleftrightarrow>
           (\<exists>n. count = int n \<and> w' = CG_iterations n (InitCG w)
              \<and> (global_residue w' \<le> precision_goal \<or> global_residue w' = NaN
                   \<or> count = max_iter)
              \<and> count \<le> max_iter
              \<and> (\<forall>j<n. precision_goal < global_residue (CG_iterations j (InitCG w)))))
     \<and> global_residue (InitCG w) = global_sum w (\<lambda>t cell. initial_r t cell * initial_r t cell)
     \<and> global_residue (Do_Step_CG w) = new_rdotr w
     \<and> (Solve_SOR goal max_iter v = (count, v', global_delta) \<longleftrightarrow>
           (\<exists>n. 0 < n \<and> count = int n
              \<and> SOR_iterations n (v, 2 * goal) = (v', global_delta)
              \<and> (global_delta \<le> goal \<or> count = max_iter) \<and> count \<le> max_iter
              \<and> (\<forall>j<n. goal < snd (SOR_iterations j (v, 2 * goal)))))
     \<and> (1 \<le> P_grid_x u \<and> 1 \<le> P_grid_y u \<longrightarrow>
          SOR_iteration u =
            (Exchange_Borders_SOR (map_tiles (\<lambda>t. fst (Do_Step 1 t))
               (Exchange_Borders_SOR (map_tiles (\<lambda>t. fst (Do_Step 0 t)) u))),
             Max ((\<lambda>c. max (snd (Do_Step 0 (tiles u c)))
                            (snd (Do_Step 1 (tiles (Exchange_Borders_SOR
                               (map_tiles (\<lambda>t. fst (Do_Step 0 t)) u)) c))))
                  ` {c. in_grid u c})))"
proof (intro conjI impI)
  show "Solve_CG precision_goal max_iter w = (count, w') \<longleftrightarrow>
           (\<exists>n. count = int n \<and> w' = CG_iterations n (InitCG w)
              \<and> (global_residue w' \<le> precision_goal \<or> global_residue w' = NaN
                   \<or> count = max_iter)
              \<and> count \<le> max_iter
              \<and> (\<forall>j<n. precision_goal < global_residue (CG_iterations j (InitCG w))))"
    by (simp only: Solve_CG_def Solve_CG_loop_char CG_run_from_0 [OF assms(1,3)])
  show "global_residue (InitCG w) = global_sum w (\<lambda>t cell. initial_r t cell * initial_r t cell)"
    by (rule InitCG_residue)
  show "global_residue (Do_Step_CG w) = new_rdotr w"
    by (rule Do_Step_CG_tile)
  show "Solve_SOR goal max_iter v = (count, v', global_delta) \<longleftrightarrow>
           (\<exists>n. 0 < n \<and> count = int n
              \<and> SOR_iterations n (v, 2 * goal) = (v', global_delta)
              \<and> (global_delta \<le> goal \<or> count = max_iter) \<and> count \<le> max_iter
              \<and> (\<forall>j<n. goal < snd (SOR_iterations j (v, 2 * goal))))"
    by (simp only: Solve_SOR_def Solve_SOR_loop_char SOR_run_from_0 [OF assms(2,3)] snd_conv)
next
  assume "1 \<le> P_grid_x u \<and> 1 \<le> P_grid_y u"
  then show "SOR_iteration u =
            (Exchange_Borders_SOR (map_tiles (\<lambda>t. fst (Do_Step 1 t))
               (Exchange_Borders_SOR (map_tiles (\<lambda>t. fst (Do_Step 0 t)) u))),
             Max ((\<lambda>c. max (snd (Do_Step 0 (tiles u c)))
                            (snd (Do_Step 1 (tiles (Exchange_Borders_SOR
                               (map_tiles (\<lambda>t. fst (Do_Step 0 t)) u)) c))))
                  ` {c. in_grid u c}))"
    by (simp add: SOR_iteration_eq)
qed

text \<open>
  The theorem on the run with one source. With \<open>CG\<close> one iteration reaches
  \<open>global_residue = 0\<close>. Without \<open>CG\<close> and with \<open>max_iter = 1\<close>, the count is 1.
\<close>

theorem Solve_stopping_rule_witness:
  "0 < Fin (1 / 10000) \<and> (0::real) < 1 / 10000 \<and> (0::int) < 10 \<and> (0::int) < 1
   \<and> Solve_CG (Fin (1 / 10000)) 10 one_source = (1, CG_iterations 1 (InitCG one_source))
   \<and> global_residue (CG_iterations 1 (InitCG one_source)) = Fin 0
   \<and> fst (Solve_SOR (1 / 10000) 1 one_source) = 1"
proof -
  have p: "0 < Fin (1 / 10000)"
    by (simp add: zero_double_def)
  have g: "(0::real) < 1 / 10000" and m: "(0::int) < 10" and m1: "(0::int) < 1"
    by simp_all
  let ?w' = "CG_iterations 1 (InitCG one_source)"
  have r: "global_residue ?w' = Fin 0"
    using one_source_step by simp
  have "\<exists>n. (1::int) = int n \<and> ?w' = CG_iterations n (InitCG one_source)
      \<and> (global_residue ?w' \<le> Fin (1 / 10000) \<or> global_residue ?w' = NaN \<or> (1::int) = 10)
      \<and> (1::int) \<le> 10
      \<and> (\<forall>j<n. Fin (1 / 10000) < global_residue (CG_iterations j (InitCG one_source)))"
    by (rule exI [of _ 1]) (simp add: one_source_step one_source_residue)
  then have cg: "Solve_CG (Fin (1 / 10000)) 10 one_source = (1, ?w')"
    using Solve_stopping_rule [OF p g m, where w = one_source and count = 1 and w' = ?w']
    by blast
  obtain c v d where s: "Solve_SOR (1 / 10000) 1 one_source = (c, v, d)"
    by (cases "Solve_SOR (1 / 10000) 1 (one_source :: real world)")
  then obtain n where "0 < n" "c = int n" "c \<le> 1"
    using Solve_stopping_rule [OF p g m1, where v = one_source and count = c and v' = v
        and global_delta = d]
    by blast
  then have "c = 1" by simp
  with s cg r p g m m1 show ?thesis by simp
qed

text \<open>
  Claim C7 as stated fails with \<open>CG\<close> on the run \<open>stale_heap\<close>, with
  \<open>precision_goal = 0.0001\<close> and \<open>max_iter = 10\<close>: the first iteration divides by zero and
  leaves \<open>global_residue\<close> NaN; the test \<open>global_residue > precision_goal\<close> is then false
  and the loop ends with the count 1, which is not \<open>max_iter\<close>, while \<open>global_residue\<close>
  is not at or below \<open>precision_goal\<close>.
\<close>

theorem Solve_stopping_rule_counterexample:
  "0 < Fin (1 / 10000) \<and> (0::int) < 10
   \<and> fst (Solve_CG (Fin (1 / 10000)) 10 stale_heap) = 1
   \<and> global_residue (snd (Solve_CG (Fin (1 / 10000)) 10 stale_heap)) = NaN
   \<and> \<not> global_residue (snd (Solve_CG (Fin (1 / 10000)) 10 stale_heap)) \<le> Fin (1 / 10000)
   \<and> (1::int) \<noteq> 10"
  using stale_heap_step
  by (simp add: stale_heap_Solve zero_double_def)

section \<open>The divisions of Do_Step_CG (claim C10)\<close>

lemma zero_pdotv_phi:
  assumes z: "Allreduce_SUM (map_tiles calc_v w) calc_pdotv = 0"
    and m: "(x, y) \<in> set (interior_cells (tiles w c))"
  shows "\<not> is_finite (phi (tiles (Do_Step_CG w) c) (idx (tiles w c) x y))"
proof -
  have "step_length w = global_residue w / 0"
    using z by (simp add: step_length_def Allreduce_pdotv)
  then have "\<not> is_finite (step_length w)"
    by (simp add: not_finite_divide_zero)
  then show ?thesis
    unfolding Do_Step_CG_cell(2) [OF m] by (intro not_finite_add not_finite_mult)
qed

lemma zero_residue_pCG:
  assumes z: "global_residue w = 0"
    and m: "(x, y) \<in> set (interior_cells (tiles w c))"
  shows "\<not> is_finite (pCG (tiles (Do_Step_CG w) c) (idx (tiles w c) x y))"
proof -
  have "gamma w = new_rdotr w / 0"
    using z by (simp add: gamma_def)
  then have "\<not> is_finite (gamma w)"
    by (simp add: not_finite_divide_zero)
  then show ?thesis
    unfolding Do_Step_CG_cell(4) [OF m] by (intro not_finite_add not_finite_mult)
qed

text \<open>
  Claim C10. \<open>Do_Step_CG\<close> divides by \<open>global_pdotv\<close> and by \<open>global_residue\<close> with no test
  of the divisor. In every state in which \<open>global_pdotv\<close> is zero, the step length \<open>a\<close> is
  the quotient by zero, an infinity or NaN, and \<open>phi\<close> is left with an infinity or NaN at
  every interior cell; in every state in which \<open>global_residue\<close> is zero, the same holds
  of \<open>gamma\<close> and \<open>pCG\<close>. Such states are reached. In the run \<open>stale_heap\<close> (one source of
  value 4, \<open>precision_goal = 0.0001\<close>) the border of \<open>pCG\<close>, which no statement sets at an
  edge of the domain, holds a 4; after \<open>InitCG\<close>, \<open>global_residue = 1 > precision_goal\<close> and
  \<open>global_pdotv = 0\<close>, and \<open>Solve\<close> leaves \<open>phi[2][1]\<close>, element 7, infinite and
  \<open>global_residue\<close> NaN. With \<open>precision_goal = -1\<close>, which the program reads without a
  check, the field of zeros gives \<open>0 / 0\<close> in both divisions of the first iteration.
\<close>

theorem unguarded_division:
  "(Allreduce_SUM (map_tiles calc_v w) calc_pdotv = 0 \<longrightarrow>
      (\<forall>c x y. (x, y) \<in> set (interior_cells (tiles w c)) \<longrightarrow>
         \<not> is_finite (phi (tiles (Do_Step_CG w) c) (idx (tiles w c) x y))))
   \<and> (global_residue w = 0 \<longrightarrow>
      (\<forall>c x y. (x, y) \<in> set (interior_cells (tiles w c)) \<longrightarrow>
         \<not> is_finite (pCG (tiles (Do_Step_CG w) c) (idx (tiles w c) x y))))
   \<and> Fin (1 / 10000) < global_residue (InitCG stale_heap)
   \<and> Allreduce_SUM (map_tiles calc_v (Exchange_Borders_CG (InitCG stale_heap))) calc_pdotv = 0
   \<and> fst (Solve_CG (Fin (1 / 10000)) 10 stale_heap) = 1
   \<and> phi (tiles (snd (Solve_CG (Fin (1 / 10000)) 10 stale_heap)) (0, 0)) 7 = PInf
   \<and> global_residue (snd (Solve_CG (Fin (1 / 10000)) 10 stale_heap)) = NaN
   \<and> Fin (- 1) < global_residue (InitCG no_source)
   \<and> Allreduce_SUM (map_tiles calc_v (Exchange_Borders_CG (InitCG no_source))) calc_pdotv = 0
   \<and> global_residue (Exchange_Borders_CG (InitCG no_source)) = 0
   \<and> fst (Solve_CG (Fin (- 1)) 10 no_source) = 1
   \<and> global_residue (snd (Solve_CG (Fin (- 1)) 10 no_source)) = NaN"
proof (intro conjI impI allI)
  fix c x y
  assume "Allreduce_SUM (map_tiles calc_v w) calc_pdotv = 0"
    and "(x, y) \<in> set (interior_cells (tiles w c))"
  then show "\<not> is_finite (phi (tiles (Do_Step_CG w) c) (idx (tiles w c) x y))"
    by (rule zero_pdotv_phi)
next
  fix c x y
  assume "global_residue w = 0" and "(x, y) \<in> set (interior_cells (tiles w c))"
  then show "\<not> is_finite (pCG (tiles (Do_Step_CG w) c) (idx (tiles w c) x y))"
    by (rule zero_residue_pCG)
next
  show "Fin (1 / 10000) < global_residue (InitCG stale_heap)"
    by (simp add: stale_heap_residue)
  show "Allreduce_SUM (map_tiles calc_v (Exchange_Borders_CG (InitCG stale_heap))) calc_pdotv = 0"
    by (simp add: stale_heap_exchange stale_heap_global_pdotv)
  show "fst (Solve_CG (Fin (1 / 10000)) 10 stale_heap) = 1"
    by (simp add: stale_heap_Solve)
  show "phi (tiles (snd (Solve_CG (Fin (1 / 10000)) 10 stale_heap)) (0, 0)) 7 = PInf"
    by (simp add: stale_heap_Solve stale_heap_step)
  show "global_residue (snd (Solve_CG (Fin (1 / 10000)) 10 stale_heap)) = NaN"
    by (simp add: stale_heap_Solve stale_heap_step)
  show "Fin (- 1) < global_residue (InitCG no_source)"
    by (simp add: no_source_residue zero_double_def)
  show "Allreduce_SUM (map_tiles calc_v (Exchange_Borders_CG (InitCG no_source))) calc_pdotv = 0"
    by (simp add: no_source_exchange no_source_global_pdotv)
  show "global_residue (Exchange_Borders_CG (InitCG no_source)) = 0"
    by (simp add: no_source_exchange no_source_residue)
  show "fst (Solve_CG (Fin (- 1)) 10 no_source) = 1"
    by (simp add: no_source_Solve)
  show "global_residue (snd (Solve_CG (Fin (- 1)) 10 no_source)) = NaN"
    by (simp add: no_source_Solve no_source_step)
qed

lemma stale_heap_InitCG_tile:
  "interior_cells (tiles (InitCG stale_heap) (0, 0)) = [(1, 1), (2, 1)]
   \<and> idx (tiles (InitCG stale_heap) (0, 0)) 2 1 = 7"
  by (simp add: InitCG_tiles stale_heap_InitCG_local cells_4x3 idx_def)

lemma no_source_InitCG_tile:
  "interior_cells (tiles (InitCG no_source) (0, 0)) = [(1, 1), (2, 1)]
   \<and> idx (tiles (InitCG no_source) (0, 0)) 2 1 = 7"
  by (simp add: InitCG_tiles no_source_InitCG_local cells_4x3 idx_def)

text \<open>
  The theorem in the two states reached: after the iteration \<open>phi[2][1]\<close>, element 7, is
  not a finite number in the run \<open>stale_heap\<close>, and \<open>pCG[2][1]\<close> is not in the run
  \<open>no_source\<close>.
\<close>

theorem unguarded_division_witness:
  "Allreduce_SUM (map_tiles calc_v (InitCG stale_heap)) calc_pdotv = 0
   \<and> (2, 1) \<in> set (interior_cells (tiles (InitCG stale_heap) (0, 0)))
   \<and> \<not> is_finite (phi (tiles (Do_Step_CG (InitCG stale_heap)) (0, 0)) 7)
   \<and> global_residue (InitCG no_source) = 0
   \<and> (2, 1) \<in> set (interior_cells (tiles (InitCG no_source) (0, 0)))
   \<and> \<not> is_finite (pCG (tiles (Do_Step_CG (InitCG no_source)) (0, 0)) 7)"
proof -
  have s: "(2, 1) \<in> set (interior_cells (tiles (InitCG stale_heap) (0, 0)))"
    and n: "(2, 1) \<in> set (interior_cells (tiles (InitCG no_source) (0, 0)))"
    by (simp_all add: stale_heap_InitCG_tile no_source_InitCG_tile)
  from unguarded_division [of "InitCG stale_heap"] stale_heap_global_pdotv s
  have "\<not> is_finite (phi (tiles (Do_Step_CG (InitCG stale_heap)) (0, 0))
      (idx (tiles (InitCG stale_heap) (0, 0)) 2 1))"
    by blast
  then have a: "\<not> is_finite (phi (tiles (Do_Step_CG (InitCG stale_heap)) (0, 0)) 7)"
    by (simp add: stale_heap_InitCG_tile)
  from unguarded_division [of "InitCG no_source"] no_source_residue n
  have "\<not> is_finite (pCG (tiles (Do_Step_CG (InitCG no_source)) (0, 0))
      (idx (tiles (InitCG no_source) (0, 0)) 2 1))"
    by blast
  then have b: "\<not> is_finite (pCG (tiles (Do_Step_CG (InitCG no_source)) (0, 0)) 7)"
    by (simp add: no_source_InitCG_tile)
  from a b s n stale_heap_global_pdotv no_source_residue show ?thesis by blast
qed

section \<open>The worlds that Setup builds\<close>

text \<open>
  What Setup establishes, when no axis has fewer cells than processes and the products
  and dimensions fit the 32-bit \<open>int\<close>: a well-formed world with non-negative offsets
  and source marks on interior cells only.
\<close>

lemma Setup_Grid_frame:
  "dim_x (Setup_Grid gridsize P_grid sources heap c) = dim_of (fst gridsize) (fst c) (fst P_grid)
   \<and> dim_y (Setup_Grid gridsize P_grid sources heap c) = dim_of (snd gridsize) (snd c) (snd P_grid)
   \<and> offset_x (Setup_Grid gridsize P_grid sources heap c) = offset_of (fst gridsize) (fst c) (fst P_grid)
   \<and> offset_y (Setup_Grid gridsize P_grid sources heap c) = offset_of (snd gridsize) (snd c) (snd P_grid)"
  unfolding Setup_Grid_def
  by (rule fold_invariant) (simp_all add: put_source_frame)

lemma dim_of_exact:
  assumes "1 \<le> n" "1 \<le> P" "n * P < 2 ^ 31" "n + 2 < 2 ^ 31" "0 \<le> c" "c < P"
  shows "dim_of n c P = (n * (c + 1)) div P - (n * c) div P + 2"
proof -
  have c': "c \<le> P" using assms by simp
  note b = interval_bounds [OF assms(1-3,5,6)]
  have o: "offset_of n c P = (n * c) div P"
    by (rule offset_of_exact [OF assms(1-3,5) c'])
  have u: "upper_offset_of n c P = (n * (c + 1)) div P"
    by (rule upper_offset_of_exact [OF assms(1-3,5,6)])
  have d: "0 \<le> upper_offset_of n c P - offset_of n c P"
    "upper_offset_of n c P - offset_of n c P \<le> n"
    using b by simp_all
  have 1: "int32 (upper_offset_of n c P - offset_of n c P) = upper_offset_of n c P - offset_of n c P"
    using d assms(4) by (intro int32_nonneg) simp_all
  have 2: "int32 (upper_offset_of n c P - offset_of n c P + 2)
      = upper_offset_of n c P - offset_of n c P + 2"
    using d assms(4) by (intro int32_nonneg) simp_all
  have "dim_of n c P = upper_offset_of n c P - offset_of n c P + 2"
    by (simp only: dim_of_def 1 2)
  then show ?thesis
    by (simp only: o u)
qed

lemma dim_of_ge_3:
  assumes "1 \<le> P" "P \<le> n" "n * P < 2 ^ 31" "n + 2 < 2 ^ 31" "0 \<le> c" "c < P"
  shows "3 \<le> dim_of n c P"
proof -
  have n: "1 \<le> n" using assms by simp
  have "n * c + P \<le> n * (c + 1)" using assms by (simp add: algebra_simps)
  then have "(n * c + P) div P \<le> (n * (c + 1)) div P"
    using assms(1) by (intro zdiv_mono1) simp_all
  moreover have "(n * c + P) div P = (n * c) div P + 1"
    using assms(1) by simp
  ultimately show ?thesis
    by (simp add: dim_of_exact [OF n assms(1,3-6)])
qed

lemma Setup_well_formed:
  assumes "1 \<le> Px" "Px \<le> nx" "nx * Px < 2 ^ 31" "nx + 2 < 2 ^ 31"
    and "1 \<le> Py" "Py \<le> ny" "ny * Py < 2 ^ 31" "ny + 2 < 2 ^ 31"
  shows "well_formed (Setup (Px, Py) (nx, ny) sources heap)"
  unfolding well_formed_def
proof (intro allI impI)
  fix cx cy
  let ?w = "Setup (Px, Py) (nx, ny) sources heap"
  assume "in_grid ?w (cx, cy)"
  then have c: "0 \<le> cx" "cx < Px" "0 \<le> cy" "cy < Py"
    by (simp_all add: in_grid_def Setup_def)
  have t: "tiles ?w = Setup_Grid (nx, ny) (Px, Py) sources heap"
    by (simp add: Setup_def)
  show "3 \<le> dim_x (tiles ?w (cx, cy)) \<and> 3 \<le> dim_y (tiles ?w (cx, cy))
      \<and> dim_x (tiles ?w (cx, cy)) = dim_x (tiles ?w (cx, 0))
      \<and> dim_y (tiles ?w (cx, cy)) = dim_y (tiles ?w (0, cy))"
    using dim_of_ge_3 [OF assms(1-4) c(1,2)] dim_of_ge_3 [OF assms(5-8) c(3,4)]
    by (simp add: t Setup_Grid_frame)
qed

lemma Setup_offsets:
  assumes "1 \<le> nx" "1 \<le> Px" "nx * Px < 2 ^ 31" "1 \<le> ny" "1 \<le> Py" "ny * Py < 2 ^ 31"
    and "in_grid (Setup (Px, Py) (nx, ny) sources heap) (cx, cy)"
  shows "0 \<le> offset_x (tiles (Setup (Px, Py) (nx, ny) sources heap) (cx, cy))
           + offset_y (tiles (Setup (Px, Py) (nx, ny) sources heap) (cx, cy))"
proof -
  from assms(7) have c: "0 \<le> cx" "cx < Px" "0 \<le> cy" "cy < Py"
    by (simp_all add: in_grid_def Setup_def)
  show ?thesis
    using interval_bounds(1) [OF assms(1-3) c(1,2)] interval_bounds(1) [OF assms(4-6) c(3,4)]
    by (simp add: Setup_def Setup_Grid_frame)
qed

lemma Setup_sources_interior:
  "sources_interior (tiles (Setup P_grid gridsize sources heap) c)"
  by (simp add: Setup_def Setup_Grid_sources_interior)

end
